theory Spec2Isabelle
  imports Complex_Main "HOL-Library.Sublist"
begin

section \<open>JavaScript strings\<close>

text \<open>
  Strings are lists of 8-bit code units (Latin-1).  The helpers below follow the
  JavaScript library functions the program calls: \<^verbatim>\<open>split\<close> with a one-character
  separator (the result always has at least one piece), \<^verbatim>\<open>includes\<close> (substring test)
  and \<^verbatim>\<open>toLowerCase\<close>, which on these code units moves \<^verbatim>\<open>A\<close> to \<^verbatim>\<open>Z\<close> and the
  accented capitals \<^verbatim>\<open>0xC0\<close> to \<^verbatim>\<open>0xDE\<close> (the multiplication sign \<^verbatim>\<open>0xD7\<close> apart) up
  by 32 and leaves every other unit alone.
\<close>

fun split_on :: "char \<Rightarrow> string \<Rightarrow> string list" where
  "split_on sep [] = [[]]"
| "split_on sep (c # cs) =
     (if c = sep then [] # split_on sep cs
      else (case split_on sep cs of
              [] \<Rightarrow> [[c]]
            | w # ws \<Rightarrow> (c # w) # ws))"

fun includes_str :: "string \<Rightarrow> string \<Rightarrow> bool" where
  "includes_str [] sub = (sub = [])"
| "includes_str (c # cs) sub = (prefix sub (c # cs) \<or> includes_str cs sub)"

definition lower_char :: "char \<Rightarrow> char" where
  "lower_char c =
     (let n = (of_char c :: nat) in
      if (65 \<le> n \<and> n \<le> 90) \<or> (192 \<le> n \<and> n \<le> 222 \<and> n \<noteq> 215)
      then char_of (n + 32) else c)"

definition toLowerCase :: "string \<Rightarrow> string" where
  "toLowerCase s = map lower_char s"

section \<open>Identity resolver (src/browser/index.ts)\<close>

subsection \<open>calculatePathRelevance\<close>

text \<open>\<^verbatim>\<open>p.split('/').filter(Boolean)\<close>: the non-empty pieces between slashes.\<close>

definition segments :: "string \<Rightarrow> string list" where
  "segments p = filter (\<lambda>s. s \<noteq> []) (split_on CHR ''/'' p)"

text \<open>First loop: \<^verbatim>\<open>for (const urlSeg of urlSegments) if (fileSegments.includes(urlSeg)) score += 10\<close>.\<close>

fun segment_loop :: "string list \<Rightarrow> string list \<Rightarrow> int \<Rightarrow> int" where
  "segment_loop fileSegments [] score = score"
| "segment_loop fileSegments (urlSeg # rest) score =
     segment_loop fileSegments rest
       (if urlSeg \<in> set fileSegments then score + 10 else score)"

text \<open>
  Second loop: \<^verbatim>\<open>for (let i = 0; i < urlSegments.length - 1; i++)\<close> with the pattern
  \<^verbatim>\<open>urlSegments[i] + '/' + urlSegments[i + 1]\<close>.  The bound is computed on integers, as
  in the source, so an empty segment list gives the bound \<open>-1\<close> and no iteration.
\<close>

function pair_loop :: "string \<Rightarrow> string list \<Rightarrow> nat \<Rightarrow> int \<Rightarrow> int" where
  "pair_loop filePath urlSegments i score =
     (if int i < int (length urlSegments) - 1
      then pair_loop filePath urlSegments (Suc i)
             (if includes_str filePath (urlSegments ! i @ ''/'' @ urlSegments ! Suc i)
              then score + 20 else score)
      else score)"
  by pat_completeness auto
termination
  by (relation "measure (\<lambda>(filePath, urlSegments, i, score). length urlSegments - i)") auto

declare pair_loop.simps [simp del]

definition calculatePathRelevance :: "string \<Rightarrow> string \<Rightarrow> int" where
  "calculatePathRelevance filePath currentUrl =
     (let urlSegments = segments currentUrl;
          fileSegments = segments filePath;
          score1 = segment_loop fileSegments urlSegments 0;
          score2 = pair_loop filePath urlSegments 0 score1
      in if urlSegments \<noteq> []
            \<and> includes_str (toLowerCase filePath) (toLowerCase (last urlSegments))
         then score2 + 30 else score2)"

text \<open>
  The scoring scheme in the words of the specification: ten points for every navigation
  segment that is a whole segment of the file path, twenty for every adjacent pair whose
  joined form is a substring of the file path, thirty when the last navigation segment is
  a case-insensitive substring of the file path.
\<close>

definition spec_score :: "string \<Rightarrow> string \<Rightarrow> int" where
  "spec_score filePath nav =
     (let s = segments nav in
        10 * int (length (filter (\<lambda>u. u \<in> set (segments filePath)) s))
      + 20 * int (length (filter (\<lambda>i. includes_str filePath (s ! i @ ''/'' @ s ! Suc i))
                                 [0 ..< length s - 1]))
      + (if s \<noteq> [] \<and> includes_str (toLowerCase filePath) (toLowerCase (last s))
         then 30 else 0))"

subsection \<open>selectBestMatchingFile\<close>

text \<open>
  The loop keeps the pair \<open>(bestMatch, bestScore)\<close>; \<open>bestMatch\<close> starts as
  \<^verbatim>\<open>candidates[0]\<close> (undefined for an empty array, hence an option) and \<open>bestScore\<close> as \<open>-1\<close>.
  The current URL path (\<^verbatim>\<open>window.location.pathname\<close>) is an argument.
\<close>

fun best_loop :: "string \<Rightarrow> string list \<Rightarrow> string option \<times> int \<Rightarrow> string option \<times> int" where
  "best_loop currentUrl [] (bestMatch, bestScore) = (bestMatch, bestScore)"
| "best_loop currentUrl (filePath # rest) (bestMatch, bestScore) =
     (let score = calculatePathRelevance filePath currentUrl in
      if score > bestScore then best_loop currentUrl rest (Some filePath, score)
      else best_loop currentUrl rest (bestMatch, bestScore))"

definition selectBestMatchingFile :: "string \<Rightarrow> string list \<Rightarrow> string option" where
  "selectBestMatchingFile currentUrl candidates =
     (if length candidates = 1 then Some (hd candidates)
      else fst (best_loop currentUrl candidates
                  (case candidates of [] \<Rightarrow> None | c # _ \<Rightarrow> Some c, -1)))"

section \<open>Data model\<close>

text \<open>
  \<^verbatim>\<open>CmpInfo\<close> and the component map.  A JavaScript object used as a dictionary
  (\<^verbatim>\<open>Record<string, T>\<close>) keeps its own keys in insertion order, so its own properties
  are an association list: \<open>assign\<close> is \<^verbatim>\<open>obj[key] = value\<close> (an existing key keeps its
  place, a new key goes to the end).  The lookup \<^verbatim>\<open>obj[key]\<close> finds an own property
  first; for a key the object does not own it finds the member of \<^verbatim>\<open>Object.prototype\<close>
  of that name, when there is one.  These members are functions, whose \<^verbatim>\<open>length\<close> is
  their number of parameters, except \<^verbatim>\<open>__proto__\<close>, which is the prototype object itself
  and has no \<^verbatim>\<open>length\<close>.
\<close>

definition object_prototype_keys :: "string list" where
  "object_prototype_keys =
     [''constructor'', ''__defineGetter__'', ''__defineSetter__'', ''hasOwnProperty'',
      ''__lookupGetter__'', ''__lookupSetter__'', ''isPrototypeOf'', ''propertyIsEnumerable'',
      ''toString'', ''valueOf'', ''__proto__'', ''toLocaleString'']"

datatype 'v property = Own 'v | Inherited string | Absent

definition get_property :: "(string \<times> 'v) list \<Rightarrow> string \<Rightarrow> 'v property" where
  "get_property obj key =
     (case map_of obj key of
        Some v \<Rightarrow> Own v
      | None \<Rightarrow> if key \<in> set object_prototype_keys then Inherited key else Absent)"

definition inherited_length :: "string \<Rightarrow> nat option" where
  "inherited_length member =
     (if member = ''__proto__'' then None
      else if member \<in> set [''__defineGetter__'', ''__defineSetter__''] then Some 2
      else if member \<in> set [''constructor'', ''hasOwnProperty'', ''isPrototypeOf'',
                              ''propertyIsEnumerable'', ''__lookupGetter__'', ''__lookupSetter__'']
      then Some 1
      else Some 0)"

text \<open>The exception of an operation on a value of the wrong kind.\<close>

datatype type_error = TypeError

text \<open>A loop whose body may throw: the first exception ends it.\<close>

fun fold_result :: "('s \<Rightarrow> 'a \<Rightarrow> 'e + 's) \<Rightarrow> 's \<Rightarrow> 'a list \<Rightarrow> 'e + 's" where
  "fold_result body state [] = Inr state"
| "fold_result body state (x # xs) =
     (case body state x of
        Inl e \<Rightarrow> Inl e
      | Inr state' \<Rightarrow> fold_result body state' xs)"

record CmpInfo =
  className :: string
  filePath :: string
  templateUrl :: "string option"

record CmpMap =
  detailByFilePath :: "(string \<times> CmpInfo) list"
  filePathsByClassName :: "(string \<times> string list) list"

fun assign :: "string \<Rightarrow> 'v \<Rightarrow> (string \<times> 'v) list \<Rightarrow> (string \<times> 'v) list" where
  "assign k v [] = [(k, v)]"
| "assign k v ((k', v') # rest) =
     (if k' = k then (k', v) # rest else (k', v') # assign k v rest)"

subsection \<open>getClassNameCandidates and getComponentInfoByClassName\<close>

text \<open>The local \<^verbatim>\<open>push\<close>: falsy (empty) values and values already present are dropped.\<close>

definition push_candidate :: "string \<Rightarrow> string list \<Rightarrow> string list" where
  "push_candidate v cands =
     (if v = [] then cands else if v \<in> set cands then cands else cands @ [v])"

text \<open>\<^verbatim>\<open>className.replace(/^_+/, '')\<close>.\<close>

definition strip_underscores :: "string \<Rightarrow> string" where
  "strip_underscores s = dropWhile (\<lambda>c. c = CHR ''_'') s"

definition getClassNameCandidates :: "string \<Rightarrow> string list" where
  "getClassNameCandidates name =
     push_candidate (strip_underscores name) (push_candidate name [])"

text \<open>
  The loop of \<^verbatim>\<open>getComponentInfoByClassName\<close> over the identifier candidates.  What
  the lookup \<^verbatim>\<open>filePathsByClassName?.[candidate]\<close> finds decides the iteration.
  \<^item> Nothing, an empty list, or an inherited member without a truthy \<^verbatim>\<open>length\<close>: the
    guard \<^verbatim>\<open>if (!candidates?.length) continue\<close> skips the identifier.
  \<^item> An own, non-empty list: \<^verbatim>\<open>selectBestMatchingFile\<close> picks a path, and
    \<^verbatim>\<open>detailByFilePath[filePath]\<close> is returned when it is truthy (an own record, or an
    inherited member); otherwise the loop goes on with the next identifier.
  \<^item> An inherited function of one parameter: \<^verbatim>\<open>selectBestMatchingFile\<close> returns its
    element \<^verbatim>\<open>0\<close>, which is undefined, and the record is looked up under the key
    \<^verbatim>\<open>undefined\<close>.
  \<^item> An inherited function of two parameters: \<^verbatim>\<open>selectBestMatchingFile\<close> iterates it
    with \<^verbatim>\<open>for ... of\<close>, which throws a \<^verbatim>\<open>TypeError\<close>.
  The result is the value returned: an own record, an inherited member, or null
  (\<open>Absent\<close>).
\<close>

definition lookup_detail :: "CmpMap \<Rightarrow> string option \<Rightarrow> CmpInfo property" where
  "lookup_detail m selected =
     get_property (detailByFilePath m)
       (case selected of None \<Rightarrow> ''undefined'' | Some p \<Rightarrow> p)"

fun resolve_loop :: "string \<Rightarrow> CmpMap \<Rightarrow> string list \<Rightarrow> type_error + CmpInfo property" where
  "resolve_loop currentUrl m [] = Inr Absent"
| "resolve_loop currentUrl m (candidate # rest) =
     (case get_property (filePathsByClassName m) candidate of
        Absent \<Rightarrow> resolve_loop currentUrl m rest
      | Own candidates \<Rightarrow>
          if candidates = [] then resolve_loop currentUrl m rest
          else (case lookup_detail m (selectBestMatchingFile currentUrl candidates) of
                  Absent \<Rightarrow> resolve_loop currentUrl m rest
                | Own info \<Rightarrow> Inr (Own info)
                | Inherited member \<Rightarrow> Inr (Inherited member))
      | Inherited member \<Rightarrow>
          (case inherited_length member of
             None \<Rightarrow> resolve_loop currentUrl m rest
           | Some n \<Rightarrow>
               if n = 0 then resolve_loop currentUrl m rest
               else if n = 1 then
                 (case lookup_detail m None of
                    Absent \<Rightarrow> resolve_loop currentUrl m rest
                  | Own info \<Rightarrow> Inr (Own info)
                  | Inherited member' \<Rightarrow> Inr (Inherited member'))
               else Inl TypeError))"

text \<open>\<^verbatim>\<open>CMP_MAP\<close> is null until the map is loaded: \<open>None\<close>.\<close>

definition getComponentInfoByClassName ::
    "string \<Rightarrow> CmpMap option \<Rightarrow> string \<Rightarrow> type_error + CmpInfo property" where
  "getComponentInfoByClassName currentUrl CMP_MAP name =
     (case CMP_MAP of
        None \<Rightarrow> Inr Absent
      | Some m \<Rightarrow> resolve_loop currentUrl m (getClassNameCandidates name))"

section \<open>Source index builder (src/node/cmp-scan.ts)\<close>

subsection \<open>Paths\<close>

text \<open>
  \<^verbatim>\<open>path.resolve\<close> and \<^verbatim>\<open>path.dirname\<close> on POSIX paths, for an absolute base: the
  segments of the base followed by those of the argument (of the argument alone when it
  is absolute), with \<^verbatim>\<open>.\<close> dropped and \<^verbatim>\<open>..\<close> removing the segment before it.
\<close>

fun normalize_segments :: "string list \<Rightarrow> string list \<Rightarrow> string list" where
  "normalize_segments acc [] = acc"
| "normalize_segments acc (s # rest) =
     (if s = ''.'' then normalize_segments acc rest
      else if s = ''..'' then normalize_segments (butlast acc) rest
      else normalize_segments (acc @ [s]) rest)"

definition path_of_segments :: "string list \<Rightarrow> string" where
  "path_of_segments segs =
     (if segs = [] then ''/'' else concat (map (\<lambda>s. CHR ''/'' # s) segs))"

definition path_resolve :: "string \<Rightarrow> string \<Rightarrow> string" where
  "path_resolve base p =
     path_of_segments
       (normalize_segments []
          (if prefix ''/'' p then segments p else segments base @ segments p))"

definition path_dirname :: "string \<Rightarrow> string" where
  "path_dirname p = path_of_segments (butlast (segments p))"

subsection \<open>The structural extractor's view of a source file\<close>

text \<open>
  What the scan reads from the ts-morph syntax tree: per file its path and classes, per
  class its name and decorators, per decorator its name and first call argument.  The
  argument is absent, not an object literal, or an object literal whose
  \<^verbatim>\<open>templateUrl\<close> property assignment (when it has one) has the given initializer text.
\<close>

datatype first_argument = NoArgument | NotObjectLiteral | ObjectLiteral "string option"

record decorator =
  decoratorName :: string
  firstArgument :: first_argument

record class_decl =
  getName :: "string option"
  getDecorators :: "decorator list"

record source_file =
  getFilePath :: string
  getClasses :: "class_decl list"

text \<open>
  \<^verbatim>\<open>text.replace(/^`|^'|^"|"|'|`$/g, '')\<close>: a backquote is removed at the start and at
  the end, single and double quotes are removed everywhere.
\<close>

definition strip_quotes :: "string \<Rightarrow> string" where
  "strip_quotes t =
     (let t1 = (case t of [] \<Rightarrow> [] | c # cs \<Rightarrow> if c = CHR 0x60 then cs else c # cs);
          t2 = (if t1 \<noteq> [] \<and> last t1 = CHR 0x60 then butlast t1 else t1)
      in filter (\<lambda>c. c \<noteq> CHR 0x22 \<and> c \<noteq> CHR 0x27) t2)"

subsection \<open>The scan loop\<close>

text \<open>
  The two statements that maintain \<^verbatim>\<open>filePathsByClassName\<close>: create the list when the
  lookup under the identifier is falsy, then push the path unless the list includes it.
  When the identifier is the name of a member of \<^verbatim>\<open>Object.prototype\<close> the lookup finds
  that member, which is truthy and has no \<^verbatim>\<open>includes\<close>: the call throws.
\<close>

definition push_file_path ::
    "string \<Rightarrow> string \<Rightarrow> (string \<times> string list) list
       \<Rightarrow> type_error + (string \<times> string list) list" where
  "push_file_path name absTs byName =
     (case get_property byName name of
        Absent \<Rightarrow> Inr (assign name [absTs] byName)
      | Own paths \<Rightarrow>
          Inr (if absTs \<in> set paths then byName else assign name (paths @ [absTs]) byName)
      | Inherited member \<Rightarrow> Inl TypeError)"

text \<open>
  The body of the inner loop, for one class of one source file.  \<open>component_record\<close>
  is the first half: the chain of \<^verbatim>\<open>continue\<close> guards (no decorator named
  \<^verbatim>\<open>Component\<close>, first argument missing or not an object literal, no class name) and
  the record built when they pass.  \<open>add_record\<close> is the second half: the assignment
  \<^verbatim>\<open>detailByFilePath[absTs] = {...}\<close> and the update of \<^verbatim>\<open>filePathsByClassName\<close>.
  The two maps are local to the run, so when the update throws nothing of them is left;
  the key \<open>absTs\<close> is a resolved path, which starts with a slash.
\<close>

definition component_record :: "string \<Rightarrow> string \<Rightarrow> class_decl \<Rightarrow> CmpInfo option" where
  "component_record cwd sfPath cls =
     (case find (\<lambda>d. decoratorName d = ''Component'') (getDecorators cls) of
        None \<Rightarrow> None
      | Some componentDecorator \<Rightarrow>
          (case firstArgument componentDecorator of
             NoArgument \<Rightarrow> None
           | NotObjectLiteral \<Rightarrow> None
           | ObjectLiteral initializer \<Rightarrow>
               (case getName cls of
                  None \<Rightarrow> None
                | Some name \<Rightarrow>
                    if name = [] then None
                    else
                      (let absTs = path_resolve cwd sfPath;
                           absTpl =
                             (case map_option strip_quotes initializer of
                                None \<Rightarrow> None
                              | Some tpl \<Rightarrow>
                                  if tpl = [] then None
                                  else Some (path_resolve (path_dirname absTs) tpl))
                       in Some \<lparr>className = name, filePath = absTs,
                                 templateUrl = absTpl\<rparr>))))"

definition add_record :: "CmpMap \<Rightarrow> CmpInfo \<Rightarrow> type_error + CmpMap" where
  "add_record m info =
     (case push_file_path (className info) (filePath info) (filePathsByClassName m) of
        Inl e \<Rightarrow> Inl e
      | Inr byName \<Rightarrow>
          Inr \<lparr>detailByFilePath = assign (filePath info) info (detailByFilePath m),
               filePathsByClassName = byName\<rparr>)"

definition scan_class :: "string \<Rightarrow> string \<Rightarrow> CmpMap \<Rightarrow> class_decl \<Rightarrow> type_error + CmpMap" where
  "scan_class cwd sfPath m cls =
     (case component_record cwd sfPath cls of
        None \<Rightarrow> Inr m
      | Some info \<Rightarrow> add_record m info)"

definition scan_file :: "string \<Rightarrow> CmpMap \<Rightarrow> source_file \<Rightarrow> type_error + CmpMap" where
  "scan_file cwd m sf = fold_result (scan_class cwd (getFilePath sf)) m (getClasses sf)"

definition empty_map :: CmpMap where
  "empty_map = \<lparr>detailByFilePath = [], filePathsByClassName = []\<rparr>"

definition scan_files :: "string \<Rightarrow> source_file list \<Rightarrow> type_error + CmpMap" where
  "scan_files cwd sourceFiles = fold_result (scan_file cwd) empty_map sourceFiles"

subsection \<open>Vocabulary for the properties of the index\<close>

text \<open>
  The records of all Component classes of the scanned files, in scan order; the paths
  stored under an identifier (none when the identifier has no entry); a list with its
  repetitions removed, each element staying at its first position; referential integrity
  of the map (every path listed under an identifier has a record) and the data model's
  requirement that no paths are stored under the empty identifier.
\<close>

definition found_components :: "string \<Rightarrow> source_file list \<Rightarrow> CmpInfo list" where
  "found_components cwd sourceFiles =
     concat (map (\<lambda>sf. List.map_filter (component_record cwd (getFilePath sf)) (getClasses sf))
                 sourceFiles)"

definition candidates_of :: "CmpMap \<Rightarrow> string \<Rightarrow> string list" where
  "candidates_of m name =
     (case map_of (filePathsByClassName m) name of None \<Rightarrow> [] | Some paths \<Rightarrow> paths)"

definition first_seen :: "'a list \<Rightarrow> 'a list" where
  "first_seen xs = rev (remdups (rev xs))"

definition referential_integrity :: "CmpMap \<Rightarrow> bool" where
  "referential_integrity m =
     (\<forall>entry \<in> set (filePathsByClassName m).
        \<forall>p \<in> set (snd entry). map_of (detailByFilePath m) p \<noteq> None)"

definition well_formed_index :: "CmpMap \<Rightarrow> bool" where
  "well_formed_index m = (referential_integrity m \<and> candidates_of m [] = [])"

subsection \<open>main: change detection, rebuild, persistence\<close>

text \<open>
  The persistent state is the index file \<^verbatim>\<open>component-map.json\<close> and the cache file
  \<^verbatim>\<open>scan-cache.json\<close>; each is absent (\<open>None\<close>) or holds a value.  Timestamps
  (\<^verbatim>\<open>mtimeMs\<close>) are numbers of which the program only asks whether they are falsy (zero)
  and whether two of them are equal; they are integers here.
\<close>

record MapFile = CmpMap +
  generatedAt :: string

record disk =
  indexFile :: "MapFile option"
  cacheFile :: "(string \<times> int) list option"

text \<open>
  What one run reads from its environment: the working directory (\<^verbatim>\<open>root\<close> in the
  source), the source files left
  after the exclude filter, the modification time \<^verbatim>\<open>fs.statSync\<close> reports for each
  path (no entry: \<^verbatim>\<open>statSync\<close> throws), the clock, and whether \<^verbatim>\<open>fs.mkdirSync\<close> and
  the two \<^verbatim>\<open>fs.writeFileSync\<close> calls return or throw.
\<close>

record env =
  cwd :: string
  sourceFiles :: "source_file list"
  statSync :: "(string \<times> int) list"
  now :: string
  mkdirOk :: bool
  indexWriteOk :: bool
  cacheWriteOk :: bool

text \<open>\<^verbatim>\<open>loadCache\<close>: a missing or unreadable cache file reads as the empty object.\<close>

definition loadCache :: "disk \<Rightarrow> (string \<times> int) list" where
  "loadCache d = (case cacheFile d of None \<Rightarrow> [] | Some cache \<Rightarrow> cache)"

text \<open>\<^verbatim>\<open>getFileStats\<close>: a path whose \<^verbatim>\<open>statSync\<close> throws gets no entry.\<close>

fun getFileStats :: "(string \<times> int) list \<Rightarrow> string list \<Rightarrow> (string \<times> int) list \<Rightarrow> (string \<times> int) list" where
  "getFileStats fs [] stats = stats"
| "getFileStats fs (p # rest) stats =
     (case map_of fs p of
        None \<Rightarrow> getFileStats fs rest stats
      | Some mtimeMs \<Rightarrow> getFileStats fs rest (assign p mtimeMs stats))"

text \<open>
  \<^verbatim>\<open>!obj[key]\<close> on a dictionary of numbers: true for a missing key and for the value 0.
  The keys of the two dictionaries are file paths; the candidate paths are the absolute
  paths ts-morph gives the source files, so a lookup by path finds an own entry or
  nothing.
\<close>

definition falsy :: "int option \<Rightarrow> bool" where
  "falsy v = (v = None \<or> v = Some 0)"

definition hasChanges :: "string list \<Rightarrow> (string \<times> int) list \<Rightarrow> (string \<times> int) list \<Rightarrow> bool" where
  "hasChanges filePaths previousCache currentStats =
     list_ex (\<lambda>p. falsy (map_of previousCache p)
                  \<or> map_of previousCache p \<noteq> map_of currentStats p) filePaths"

definition hasNewOrDeletedFiles ::
    "string list \<Rightarrow> (string \<times> int) list \<Rightarrow> (string \<times> int) list \<Rightarrow> bool" where
  "hasNewOrDeletedFiles filePaths previousCache currentStats =
     (let cachedPaths = map fst previousCache in
        length filePaths \<noteq> length cachedPaths
      \<or> list_ex (\<lambda>p. falsy (map_of previousCache p)) filePaths
      \<or> list_ex (\<lambda>p. falsy (map_of currentStats p)) cachedPaths)"

text \<open>
  The run ends in one of three ways: \<^verbatim>\<open>process.exit(0)\<close> before the scan (nothing
  changed), the normal end after both files are written, or an exception (of
  \<^verbatim>\<open>mkdirSync\<close>, of the scan, of one of the two writes) that the \<^verbatim>\<open>catch\<close> of
  \<^verbatim>\<open>main()\<close> turns into \<^verbatim>\<open>process.exit(1)\<close>.
\<close>

datatype exit_status = Unchanged | Saved | Failed

definition main :: "env \<Rightarrow> disk \<Rightarrow> exit_status \<times> disk" where
  "main e d =
     (if \<not> mkdirOk e then (Failed, d)
      else
        (let filePaths = map getFilePath (sourceFiles e);
             currentStats = getFileStats (statSync e) filePaths [];
             previousCache = loadCache d
         in if \<not> hasChanges filePaths previousCache currentStats
               \<and> \<not> hasNewOrDeletedFiles filePaths previousCache currentStats
               \<and> indexFile d \<noteq> None
            then (Unchanged, d)
            else
              (case scan_files (cwd e) (sourceFiles e) of
                 Inl err \<Rightarrow> (Failed, d)
               | Inr m \<Rightarrow>
                   (let out = \<lparr>detailByFilePath = detailByFilePath m,
                                 filePathsByClassName = filePathsByClassName m,
                                 generatedAt = now e\<rparr>
                    in if \<not> indexWriteOk e then (Failed, d)
                       else if \<not> cacheWriteOk e then (Failed, d\<lparr>indexFile := Some out\<rparr>)
                       else (Saved, \<lparr>indexFile = Some out, cacheFile = Some currentStats\<rparr>)))))"

text \<open>
  Vocabulary for the properties of a run: the timestamps of the current candidate files,
  the decision to rebuild (the negation of the test before \<^verbatim>\<open>process.exit(0)\<close>), and the
  index file a rebuild writes for a scanned map.
\<close>

definition currentStats :: "env \<Rightarrow> (string \<times> int) list" where
  "currentStats e = getFileStats (statSync e) (map getFilePath (sourceFiles e)) []"

definition shouldRebuild :: "env \<Rightarrow> disk \<Rightarrow> bool" where
  "shouldRebuild e d =
     (hasChanges (map getFilePath (sourceFiles e)) (loadCache d) (currentStats e)
      \<or> hasNewOrDeletedFiles (map getFilePath (sourceFiles e)) (loadCache d) (currentStats e)
      \<or> indexFile d = None)"

definition map_file :: "env \<Rightarrow> CmpMap \<Rightarrow> MapFile" where
  "map_file e m =
     \<lparr>detailByFilePath = detailByFilePath m, filePathsByClassName = filePathsByClassName m,
      generatedAt = now e\<rparr>"

section \<open>Open dispatcher (src/node/file-opener.ts)\<close>

text \<open>
  The dispatcher reads the environment variable \<^verbatim>\<open>EDITOR_CMD\<close> (absent: \<open>None\<close>), the
  constant \<^verbatim>\<open>FALLBACK_EDITOR\<close>, and the cached answer of \<^verbatim>\<open>checkEditorCLI\<close>; its effect
  is a sequence of \<^verbatim>\<open>childProcess.spawn\<close> calls, each of which returns or throws.  The
  model returns the calls it made next to its result, each tagged with the stage of the
  chain that made it.  A call is made with a command and a list of arguments, except when
  the two come from destructuring a string (see \<open>call_inherited\<close>): then each is one
  character of it, or undefined.
\<close>

datatype stage = Override | Preferred | Fallback

datatype spawn_request = Spawn string "string list" | SpawnMalformed "string option" "string option"

type_synonym spawn_call = "stage \<times> spawn_request"

record launcher =
  EDITOR_CMD :: "string option"
  FALLBACK_EDITOR :: string
  checkEditorCLI :: "string \<Rightarrow> bool"
  spawnReturns :: "spawn_request \<Rightarrow> bool"

definition MAC_APP_NAMES :: "string \<Rightarrow> string" where
  "MAC_APP_NAMES editor =
     (if editor = ''cursor'' then ''Cursor''
      else if editor = ''code'' then ''Visual Studio Code''
      else ''WebStorm'')"

text \<open>\<^verbatim>\<open>if (x) args.push(flag, x)\<close> for a destructured, possibly missing, piece of the target.\<close>

definition optional_flag :: "string \<Rightarrow> string list \<Rightarrow> nat \<Rightarrow> string list" where
  "optional_flag flag pieces i =
     (if i < length pieces \<and> pieces ! i \<noteq> [] then [flag, pieces ! i] else [])"

text \<open>The three own entries of \<^verbatim>\<open>COMMAND_TEMPLATES\<close>.\<close>

definition command_template ::
    "(string \<Rightarrow> bool) \<Rightarrow> string \<Rightarrow> (string \<Rightarrow> string \<times> string list) option" where
  "command_template cli editor =
     (if editor = ''cursor'' \<or> editor = ''code'' then
        Some (\<lambda>file.
          if cli editor then (editor, [''--goto'', file])
          else (''open'', [''-a'', MAC_APP_NAMES editor, hd (split_on CHR '':'' file)]))
      else if editor = ''webstorm'' then
        Some (\<lambda>file.
          if cli ''webstorm'' then
            (let pieces = split_on CHR '':'' file in
             (''webstorm'',
              [hd pieces] @ optional_flag ''--line'' pieces 1
                @ optional_flag ''--column'' pieces 2))
          else (''open'', [''-a'', MAC_APP_NAMES ''webstorm'', hd (split_on CHR '':'' file)]))
      else None)"

text \<open>
  The lookup \<^verbatim>\<open>COMMAND_TEMPLATES[editor]\<close> in the plain object: an own template, an
  inherited member of \<^verbatim>\<open>Object.prototype\<close>, or nothing.
\<close>

definition COMMAND_TEMPLATES ::
    "(string \<Rightarrow> bool) \<Rightarrow> string \<Rightarrow> (string \<Rightarrow> string \<times> string list) property" where
  "COMMAND_TEMPLATES cli editor =
     (case command_template cli editor of
        Some mk \<Rightarrow> Own mk
      | None \<Rightarrow> if editor \<in> set object_prototype_keys then Inherited editor else Absent)"

text \<open>
  \<^verbatim>\<open>const [cmd, args] = mk(fileWithPos)\<close> when \<open>mk\<close> is an inherited member, called as a
  plain function (its \<^verbatim>\<open>this\<close> is undefined in a module).  \<^verbatim>\<open>constructor\<close> is
  \<^verbatim>\<open>Object\<close>, which wraps the target in a string object; \<^verbatim>\<open>toString\<close> returns the
  string \<^verbatim>\<open>[object Undefined]\<close>; destructuring either takes the first two characters.
  \<^verbatim>\<open>isPrototypeOf\<close> returns false, which cannot be destructured; \<^verbatim>\<open>__proto__\<close> is
  not a function; every other member converts its undefined \<^verbatim>\<open>this\<close> to an object.  All
  of these throw a \<^verbatim>\<open>TypeError\<close>, and they do so before the \<^verbatim>\<open>try\<close> of \<^verbatim>\<open>tryRun\<close>.
\<close>

definition destructure_string :: "string \<Rightarrow> spawn_request" where
  "destructure_string s =
     SpawnMalformed (if 0 < length s then Some [s ! 0] else None)
                    (if 1 < length s then Some [s ! 1] else None)"

definition call_inherited :: "string \<Rightarrow> string \<Rightarrow> type_error + spawn_request" where
  "call_inherited member fileWithPos =
     (if member = ''constructor'' then Inr (destructure_string fileWithPos)
      else if member = ''toString'' then Inr (destructure_string ''[object Undefined]'')
      else Inl TypeError)"

text \<open>
  The local \<^verbatim>\<open>tryRun\<close>: false without a spawn when the lookup finds nothing; an
  exception of the spawn is caught and gives false; an exception of the template call is
  not caught.
\<close>

definition tryRun ::
    "launcher \<Rightarrow> stage \<Rightarrow> string \<Rightarrow> string \<Rightarrow> (type_error + bool) \<times> spawn_call list" where
  "tryRun L st fileWithPos editor =
     (case COMMAND_TEMPLATES (checkEditorCLI L) editor of
        Absent \<Rightarrow> (Inr False, [])
      | Own mk \<Rightarrow>
          (case mk fileWithPos of
             (cmd, args) \<Rightarrow> (Inr (spawnReturns L (Spawn cmd args)), [(st, Spawn cmd args)]))
      | Inherited member \<Rightarrow>
          (case call_inherited member fileWithPos of
             Inl e \<Rightarrow> (Inl e, [])
           | Inr request \<Rightarrow> (Inr (spawnReturns L request), [(st, request)])))"

text \<open>The \<^verbatim>\<open>EDITOR_CMD\<close> block: skipped when the variable is unset or empty.\<close>

definition runOverride :: "launcher \<Rightarrow> string \<Rightarrow> bool \<times> spawn_call list" where
  "runOverride L fileWithPos =
     (case EDITOR_CMD L of
        None \<Rightarrow> (False, [])
      | Some editorCmd \<Rightarrow>
          if editorCmd = [] then (False, [])
          else
            (let pieces = split_on CHR '' '' editorCmd;
                 cmd = hd pieces;
                 args = tl pieces @ [fileWithPos]
             in (spawnReturns L (Spawn cmd args), [(Override, Spawn cmd args)])))"

definition launchInEditor ::
    "launcher \<Rightarrow> string \<Rightarrow> string \<Rightarrow> (type_error + bool) \<times> spawn_call list" where
  "launchInEditor L fileWithPos preferred =
     (case runOverride L fileWithPos of
        (True, calls0) \<Rightarrow> (Inr True, calls0)
      | (False, calls0) \<Rightarrow>
          (case tryRun L Preferred fileWithPos preferred of
             (Inl e, calls1) \<Rightarrow> (Inl e, calls0 @ calls1)
           | (Inr True, calls1) \<Rightarrow> (Inr True, calls0 @ calls1)
           | (Inr False, calls1) \<Rightarrow>
               if FALLBACK_EDITOR L \<noteq> [] then
                 (case tryRun L Fallback fileWithPos (FALLBACK_EDITOR L) of
                    (result, calls2) \<Rightarrow> (result, calls0 @ calls1 @ calls2))
               else (Inr False, calls0 @ calls1)))"

subsection \<open>The chain in the words of the specification\<close>

text \<open>
  The strategies a request has, in priority order: the override command with the target
  appended (when configured), the preferred editor's command, the fallback editor's
  command.  Running a chain tries them in order, stops at the first that succeeds and
  reports failure when none does.
\<close>

definition succeeds :: "launcher \<Rightarrow> spawn_call \<Rightarrow> bool" where
  "succeeds L call = spawnReturns L (snd call)"

definition override_call :: "launcher \<Rightarrow> string \<Rightarrow> spawn_call list" where
  "override_call L target =
     (case EDITOR_CMD L of
        None \<Rightarrow> []
      | Some editorCmd \<Rightarrow>
          if editorCmd = [] then []
          else [(Override, Spawn (hd (split_on CHR '' '' editorCmd))
                                 (tl (split_on CHR '' '' editorCmd) @ [target]))])"

definition editor_call :: "launcher \<Rightarrow> stage \<Rightarrow> string \<Rightarrow> string \<Rightarrow> spawn_call list" where
  "editor_call L st target editor =
     (case command_template (checkEditorCLI L) editor of
        None \<Rightarrow> []
      | Some mk \<Rightarrow> [(st, Spawn (fst (mk target)) (snd (mk target)))])"

definition chain :: "launcher \<Rightarrow> string \<Rightarrow> string \<Rightarrow> spawn_call list" where
  "chain L target preferred =
     override_call L target @ editor_call L Preferred target preferred
       @ editor_call L Fallback target (FALLBACK_EDITOR L)"

fun run_chain :: "launcher \<Rightarrow> spawn_call list \<Rightarrow> bool \<times> spawn_call list" where
  "run_chain L [] = (False, [])"
| "run_chain L (call # rest) =
     (if succeeds L call then (True, [call])
      else (case run_chain L rest of (ok, calls) \<Rightarrow> (ok, call # calls)))"

section \<open>Content search ranker (src/node/file-opener.ts)\<close>

subsection \<open>More of the string library\<close>

text \<open>
  \<^verbatim>\<open>trim\<close> removes white space and line terminators at both ends; among the 8-bit code
  units these are tab, line feed, vertical tab, form feed, carriage return, space and the
  no-break space.
\<close>

definition is_space :: "char \<Rightarrow> bool" where
  "is_space c = ((of_char c :: nat) \<in> {9, 10, 11, 12, 13, 32, 160})"

definition trim :: "string \<Rightarrow> string" where
  "trim s = rev (dropWhile is_space (rev (dropWhile is_space s)))"

definition startsWith :: "string \<Rightarrow> string \<Rightarrow> bool" where
  "startsWith s start = prefix start s"

definition backslash :: char where
  "backslash = CHR 0x5C"

subsection \<open>The escaping step\<close>

text \<open>
  \<^verbatim>\<open>lowerTerm.replace(/[.*+?^${}()|[\\]\\]/g, '\\$&')\<close>.  In the regular expression
  literal the character class is closed by the first unescaped \<^verbatim>\<open>]\<close>, so the class is
  \<^verbatim>\<open>. * + ? ^ $ { } ( ) | [\<close> and the backslash, and what follows it, \<^verbatim>\<open>\\]\<close>, is
  a literal backslash and a literal \<^verbatim>\<open>]\<close>.  A match is therefore three characters long:
  one of the class, a backslash, a closing bracket; each match gets a backslash in front.
\<close>

definition in_escape_class :: "char \<Rightarrow> bool" where
  "in_escape_class c = (c \<in> set ''.*+?^${}()|['' \<or> c = backslash)"

fun escape_replace :: "string \<Rightarrow> string" where
  "escape_replace (a # b # c # rest) =
     (if in_escape_class a \<and> b = backslash \<and> c = CHR '']''
      then backslash # a # b # c # escape_replace rest
      else a # escape_replace (b # c # rest))"
| "escape_replace s = s"

text \<open>The source of the pattern: \<^verbatim>\<open>\b\<close>, the replaced term, \<^verbatim>\<open>\b\<close>.\<close>

definition word_pattern :: "string \<Rightarrow> string" where
  "word_pattern lowerTerm =
     [backslash, CHR ''b''] @ escape_replace lowerTerm @ [backslash, CHR ''b'']"

subsection \<open>Regular expressions\<close>

text \<open>
  \<^verbatim>\<open>new RegExp(source).test(subject)\<close> is modelled exactly on a fragment of the pattern
  language: literal characters, the assertion \<^verbatim>\<open>\b\<close> and parentheses.  Without a
  quantifier or an alternative a group matches what its contents match, so a pattern of
  the fragment is a sequence of literals and assertions; unbalanced parentheses are what
  the constructor rejects with a \<^verbatim>\<open>SyntaxError\<close>.  A pattern with any other pattern
  character is outside the fragment, and its outcome is left to the argument \<open>host\<close>,
  which stands for the JavaScript engine: \<open>None\<close> when the engine throws, otherwise the
  result of the test.
\<close>

datatype atom = Lit char | WordBoundary

datatype regexp = SyntaxError | Compiled "atom list" | Unmodelled

fun parse_pattern :: "string \<Rightarrow> nat \<Rightarrow> atom list \<Rightarrow> regexp" where
  "parse_pattern [] depth acc = (if depth = 0 then Compiled (rev acc) else SyntaxError)"
| "parse_pattern (c # cs) depth acc =
     (if c = CHR ''('' then parse_pattern cs (Suc depth) acc
      else if c = CHR '')'' then
        (case depth of
           0 \<Rightarrow> (case parse_pattern cs 0 acc of Unmodelled \<Rightarrow> Unmodelled | _ \<Rightarrow> SyntaxError)
         | Suc k \<Rightarrow> parse_pattern cs k acc)
      else if c = backslash then
        (case cs of
           [] \<Rightarrow> SyntaxError
         | e # cs' \<Rightarrow>
             if e = CHR ''b'' then parse_pattern cs' depth (WordBoundary # acc)
             else Unmodelled)
      else if c \<in> set ''.*+?^$[]{}|'' then Unmodelled
      else parse_pattern cs depth (Lit c # acc))"

definition is_word_char :: "char \<Rightarrow> bool" where
  "is_word_char c =
     (let n = (of_char c :: nat) in
        (48 \<le> n \<and> n \<le> 57) \<or> (65 \<le> n \<and> n \<le> 90) \<or> (97 \<le> n \<and> n \<le> 122) \<or> n = 95)"

text \<open>
  \<^verbatim>\<open>\b\<close> holds between the previous character and the next one when exactly one of
  them is a word character; the start and the end of the subject count as non-word.
\<close>

definition at_word_boundary :: "char option \<Rightarrow> string \<Rightarrow> bool" where
  "at_word_boundary prev s =
     ((case prev of None \<Rightarrow> False | Some p \<Rightarrow> is_word_char p)
        \<noteq> (case s of [] \<Rightarrow> False | x # _ \<Rightarrow> is_word_char x))"

fun match_here :: "atom list \<Rightarrow> char option \<Rightarrow> string \<Rightarrow> bool" where
  "match_here [] prev s = True"
| "match_here (Lit c # atoms) prev s =
     (case s of [] \<Rightarrow> False | x # xs \<Rightarrow> x = c \<and> match_here atoms (Some x) xs)"
| "match_here (WordBoundary # atoms) prev s =
     (at_word_boundary prev s \<and> match_here atoms prev s)"

fun regexp_search :: "atom list \<Rightarrow> char option \<Rightarrow> string \<Rightarrow> bool" where
  "regexp_search atoms prev [] = match_here atoms prev []"
| "regexp_search atoms prev (x # xs) =
     (match_here atoms prev (x # xs) \<or> regexp_search atoms (Some x) xs)"

definition regexp_test ::
    "(string \<Rightarrow> string \<Rightarrow> bool option) \<Rightarrow> string \<Rightarrow> string \<Rightarrow> bool option" where
  "regexp_test host source subject =
     (case parse_pattern source 0 [] of
        SyntaxError \<Rightarrow> None
      | Compiled atoms \<Rightarrow> Some (regexp_search atoms None subject)
      | Unmodelled \<Rightarrow> host source subject)"

subsection \<open>findBestLineInFile\<close>

text \<open>
  Both exceptions the function can meet end in its \<^verbatim>\<open>catch\<close>.  Scores are sums of
  weights times 2, 3 and 1.5: multiples of one half, which JavaScript numbers hold
  exactly; they are rationals here.
\<close>

datatype error = ReadError | RegExpSyntaxError

text \<open>The body of the inner \<^verbatim>\<open>lines.forEach\<close>: the new value of \<^verbatim>\<open>scores[lineIndex]\<close>.\<close>

definition score_line ::
    "(string \<Rightarrow> string \<Rightarrow> bool option) \<Rightarrow> rat \<Rightarrow> string \<Rightarrow> string \<Rightarrow> rat \<Rightarrow> error + rat" where
  "score_line host weight term line score =
     (let lowerLine = toLowerCase line;
          lowerTerm = toLowerCase term
      in if includes_str lowerLine lowerTerm then
           (case regexp_test host (word_pattern lowerTerm) lowerLine of
              None \<Rightarrow> Inl RegExpSyntaxError
            | Some wholeWord \<Rightarrow>
                (let score1 = score + weight * 2;
                     score2 = (if wholeWord then score1 + weight * 3 else score1);
                     score3 = (if startsWith (trim lowerLine) lowerTerm
                               then score2 + weight * (3 / 2) else score2)
                 in Inr score3))
         else Inr score)"

fun score_lines ::
    "(string \<Rightarrow> string \<Rightarrow> bool option) \<Rightarrow> rat \<Rightarrow> string \<Rightarrow> string list \<Rightarrow> rat list
       \<Rightarrow> error + rat list" where
  "score_lines host weight term (line # lines) (score # scores) =
     (case score_line host weight term line score of
        Inl e \<Rightarrow> Inl e
      | Inr score' \<Rightarrow>
          (case score_lines host weight term lines scores of
             Inl e \<Rightarrow> Inl e
           | Inr scores' \<Rightarrow> Inr (score' # scores')))"
| "score_lines host weight term lines scores = Inr scores"

text \<open>
  The outer \<^verbatim>\<open>searchTerms.forEach\<close>, with the length of the whole list and the index of
  the current term: \<^verbatim>\<open>weight = Math.max(1, searchTerms.length - termIndex)\<close>.
\<close>

fun score_terms ::
    "(string \<Rightarrow> string \<Rightarrow> bool option) \<Rightarrow> nat \<Rightarrow> nat \<Rightarrow> string list \<Rightarrow> string list \<Rightarrow> rat list
       \<Rightarrow> error + rat list" where
  "score_terms host n termIndex [] lines scores = Inr scores"
| "score_terms host n termIndex (term # rest) lines scores =
     (let weight = max 1 (int n - int termIndex) in
      case score_lines host (of_int weight) term lines scores of
        Inl e \<Rightarrow> Inl e
      | Inr scores' \<Rightarrow> score_terms host n (Suc termIndex) rest lines scores')"

text \<open>The final \<^verbatim>\<open>scores.forEach\<close> over \<open>(bestLine, bestScore)\<close>.\<close>

fun best_line_loop :: "rat list \<Rightarrow> nat \<Rightarrow> nat \<times> rat \<Rightarrow> nat \<times> rat" where
  "best_line_loop [] index (bestLine, bestScore) = (bestLine, bestScore)"
| "best_line_loop (score # rest) index (bestLine, bestScore) =
     (if score > bestScore then best_line_loop rest (Suc index) (index + 1, score)
      else best_line_loop rest (Suc index) (bestLine, bestScore))"

text \<open>
  The files that can be read are an association list from path to content; reading any
  other path throws.
\<close>

definition search_scores ::
    "(string \<Rightarrow> string \<Rightarrow> bool option) \<Rightarrow> (string \<times> string) list \<Rightarrow> string \<Rightarrow> string list
       \<Rightarrow> error + rat list" where
  "search_scores host files file searchTerms =
     (case map_of files file of
        None \<Rightarrow> Inl ReadError
      | Some content \<Rightarrow>
          (let lines = split_on CHR 0x0A content;
               scores = replicate (length lines) 0
           in score_terms host (length searchTerms) 0 searchTerms lines scores))"

definition findBestLineInFile ::
    "(string \<Rightarrow> string \<Rightarrow> bool option) \<Rightarrow> (string \<times> string) list \<Rightarrow> string \<Rightarrow> string list
       \<Rightarrow> nat" where
  "findBestLineInFile host files file searchTerms =
     (case search_scores host files file searchTerms of
        Inl e \<Rightarrow> 1
      | Inr scores \<Rightarrow>
          (case best_line_loop scores 0 (1, 0) of
             (bestLine, bestScore) \<Rightarrow> if bestScore > 0 then bestLine else 1))"

subsection \<open>The ranking in the words of the specification\<close>

text \<open>
  The clue at position \<open>i\<close> of \<open>clueCount\<close> clues weighs \<open>max 1 (clueCount - i)\<close>.  A line
  earns twice the weight when the clue occurs in it ignoring case, three times the weight
  more when the clue's literal text also occurs there between word boundaries, and one and
  a half times the weight more when the trimmed line starts with the clue.  The answer is
  the number of the first line of highest total score, or 1 when no line scores above
  zero.
\<close>

definition clue_weight :: "nat \<Rightarrow> nat \<Rightarrow> rat" where
  "clue_weight clueCount i = of_int (max 1 (int clueCount - int i))"

definition whole_word_match :: "string \<Rightarrow> string \<Rightarrow> bool" where
  "whole_word_match clue line =
     regexp_search ([WordBoundary] @ map Lit (toLowerCase clue) @ [WordBoundary]) None
       (toLowerCase line)"

definition clue_score :: "rat \<Rightarrow> string \<Rightarrow> string \<Rightarrow> rat" where
  "clue_score weight clue line =
     (if includes_str (toLowerCase line) (toLowerCase clue)
      then weight * 2
           + (if whole_word_match clue line then weight * 3 else 0)
           + (if startsWith (trim (toLowerCase line)) (toLowerCase clue)
              then weight * (3 / 2) else 0)
      else 0)"

definition line_score :: "string list \<Rightarrow> string \<Rightarrow> rat" where
  "line_score clues line =
     sum_list (map (\<lambda>i. clue_score (clue_weight (length clues) i) (clues ! i) line)
                   [0 ..< length clues])"

definition spec_best_line :: "string \<Rightarrow> string list \<Rightarrow> nat" where
  "spec_best_line content clues =
     (let scores = map (line_score clues) (split_on CHR 0x0A content);
          top = foldr max scores 0
      in if top > 0 then Suc (length (takeWhile (\<lambda>s. s \<noteq> top) scores)) else 1)"

text \<open>A clue whose lower-case form has no character that is special in a pattern.\<close>

definition plain_clue :: "string \<Rightarrow> bool" where
  "plain_clue clue =
     (\<forall>c \<in> set (toLowerCase clue). c \<notin> set ''.*+?^$[]{}|()'' \<and> c \<noteq> backslash)"

section \<open>Properties of the identity resolver\<close>

subsection \<open>The score computed by the loops is the additive scheme\<close>

lemma segment_loop_eq:
  "segment_loop fs us s = s + 10 * int (length (filter (\<lambda>u. u \<in> set fs) us))"
  by (induction us arbitrary: s) auto

lemma pair_loop_eq:
  "pair_loop fp us i s =
     s + 20 * int (length (filter (\<lambda>k. includes_str fp (us ! k @ ''/'' @ us ! Suc k))
                                  [i ..< length us - 1]))"
proof (induction fp us i s rule: pair_loop.induct)
  case (1 fp us i s)
  define n where "n = length us - 1"
  show ?case
  proof (cases "int i < int (length us) - 1")
    case True
    then have lt: "i < n" unfolding n_def by linarith
    have step: "[i ..< n] = i # [Suc i ..< n]"
      using lt by (rule upt_conv_Cons)
    have unfold: "pair_loop fp us i s = pair_loop fp us (Suc i)
             (if includes_str fp (us ! i @ ''/'' @ us ! Suc i) then s + 20 else s)"
      using True by (subst pair_loop.simps) simp
    show ?thesis
      unfolding unfold "1.IH" [OF True] n_def [symmetric] step by simp
  next
    case False
    then have "n \<le> i" unfolding n_def by linarith
    then have empty: "[i ..< n] = []" by simp
    have stop: "pair_loop fp us i s = s"
      using False by (subst pair_loop.simps) simp
    show ?thesis unfolding n_def [symmetric] empty stop by simp
  qed
qed

lemma calculatePathRelevance_spec:
  "calculatePathRelevance path nav = spec_score path nav"
  by (simp add: calculatePathRelevance_def spec_score_def Let_def
      segment_loop_eq pair_loop_eq)

subsection \<open>The selection loop returns the first candidate of highest score\<close>

lemma best_loop_first_max:
  "best_loop url xs (bm, bs) = (bm', bs') \<Longrightarrow>
     ((\<forall>x \<in> set xs. calculatePathRelevance x url \<le> bs) \<and> bm' = bm \<and> bs' = bs)
   \<or> (\<exists>k < length xs. bm' = Some (xs ! k) \<and> bs' = calculatePathRelevance (xs ! k) url
          \<and> bs < bs'
          \<and> (\<forall>j < length xs. calculatePathRelevance (xs ! j) url \<le> bs')
          \<and> (\<forall>j < k. calculatePathRelevance (xs ! j) url < bs'))"
proof (induction xs arbitrary: bm bs)
  case Nil
  then show ?case by simp
next
  case (Cons x xs)
  let ?g = "\<lambda>f. calculatePathRelevance f url"
  show ?case
  proof (cases "?g x > bs")
    case True
    with Cons.prems have run: "best_loop url xs (Some x, ?g x) = (bm', bs')"
      by (simp add: Let_def)
    from Cons.IH [OF run] show ?thesis
    proof
      assume a: "(\<forall>y \<in> set xs. ?g y \<le> ?g x) \<and> bm' = Some x \<and> bs' = ?g x"
      have "\<forall>j < length (x # xs). ?g ((x # xs) ! j) \<le> bs'"
        using a by (auto simp: nth_Cons split: nat.splits)
      with a True have "0 < length (x # xs) \<and> bm' = Some ((x # xs) ! 0)
          \<and> bs' = ?g ((x # xs) ! 0) \<and> bs < bs'
          \<and> (\<forall>j < length (x # xs). ?g ((x # xs) ! j) \<le> bs')
          \<and> (\<forall>j < (0::nat). ?g ((x # xs) ! j) < bs')"
        by simp
      then show ?thesis by blast
    next
      assume "\<exists>k < length xs. bm' = Some (xs ! k) \<and> bs' = ?g (xs ! k) \<and> ?g x < bs'
          \<and> (\<forall>j < length xs. ?g (xs ! j) \<le> bs') \<and> (\<forall>j < k. ?g (xs ! j) < bs')"
      then obtain k where k: "k < length xs" "bm' = Some (xs ! k)" "bs' = ?g (xs ! k)"
        "?g x < bs'" "\<forall>j < length xs. ?g (xs ! j) \<le> bs'" "\<forall>j < k. ?g (xs ! j) < bs'"
        by blast
      have all: "\<forall>j < length (x # xs). ?g ((x # xs) ! j) \<le> bs'"
        using k by (auto simp: nth_Cons split: nat.splits)
      have before: "\<forall>j < Suc k. ?g ((x # xs) ! j) < bs'"
        using k by (auto simp: nth_Cons split: nat.splits)
      have "Suc k < length (x # xs) \<and> bm' = Some ((x # xs) ! Suc k)
          \<and> bs' = ?g ((x # xs) ! Suc k) \<and> bs < bs'"
        using k True by simp
      with all before show ?thesis by blast
    qed
  next
    case False
    with Cons.prems have run: "best_loop url xs (bm, bs) = (bm', bs')"
      by (simp add: Let_def)
    from Cons.IH [OF run] show ?thesis
    proof
      assume "(\<forall>y \<in> set xs. ?g y \<le> bs) \<and> bm' = bm \<and> bs' = bs"
      with False show ?thesis by auto
    next
      assume "\<exists>k < length xs. bm' = Some (xs ! k) \<and> bs' = ?g (xs ! k) \<and> bs < bs'
          \<and> (\<forall>j < length xs. ?g (xs ! j) \<le> bs') \<and> (\<forall>j < k. ?g (xs ! j) < bs')"
      then obtain k where k: "k < length xs" "bm' = Some (xs ! k)" "bs' = ?g (xs ! k)"
        "bs < bs'" "\<forall>j < length xs. ?g (xs ! j) \<le> bs'" "\<forall>j < k. ?g (xs ! j) < bs'"
        by blast
      have all: "\<forall>j < length (x # xs). ?g ((x # xs) ! j) \<le> bs'"
        using k False by (auto simp: nth_Cons split: nat.splits)
      have before: "\<forall>j < Suc k. ?g ((x # xs) ! j) < bs'"
        using k False by (auto simp: nth_Cons split: nat.splits)
      have "Suc k < length (x # xs) \<and> bm' = Some ((x # xs) ! Suc k)
          \<and> bs' = ?g ((x # xs) ! Suc k) \<and> bs < bs'"
        using k by simp
      with all before show ?thesis by blast
    qed
  qed
qed

lemma spec_score_nonneg: "0 \<le> spec_score f url"
  by (simp add: spec_score_def Let_def)

lemma selectBestMatchingFile_nonempty:
  assumes "candidates \<noteq> []"
  shows "\<exists>k < length candidates.
           selectBestMatchingFile nav candidates = Some (candidates ! k)
         \<and> (\<forall>j < length candidates.
               calculatePathRelevance (candidates ! j) nav
                 \<le> calculatePathRelevance (candidates ! k) nav)
         \<and> (\<forall>j < k. calculatePathRelevance (candidates ! j) nav
                 < calculatePathRelevance (candidates ! k) nav)"
proof (cases "length candidates = 1")
  case True
  then obtain c where c: "candidates = [c]"
    by (cases candidates) auto
  then show ?thesis
    by (simp add: selectBestMatchingFile_def)
next
  case False
  obtain c cs where cands: "candidates = c # cs"
    using assms by (cases candidates) auto
  obtain bm' bs' where run: "best_loop nav candidates (Some c, -1) = (bm', bs')"
    by (cases "best_loop nav candidates (Some c, -1)") auto
  have "selectBestMatchingFile nav candidates
      = fst (best_loop nav candidates (Some c, -1))"
    using False unfolding selectBestMatchingFile_def by (simp add: cands del: best_loop.simps)
  then have sel: "selectBestMatchingFile nav candidates = bm'"
    using run by simp
  have "\<not> (\<forall>x \<in> set candidates. calculatePathRelevance x nav \<le> -1)"
    using cands spec_score_nonneg [of c nav] by (auto simp: calculatePathRelevance_spec)
  with best_loop_first_max [OF run] sel show ?thesis
    by auto
qed


text \<open>
  Claim C1.  For a list of two or more candidate file paths and any navigation path,
  \<open>selectBestMatchingFile\<close> returns the candidate at some position \<open>k\<close> whose relevance
  score is at least that of every candidate and strictly above that of every candidate
  stored before it: the highest score wins and ties go to the first candidate in the
  stored order.  The relevance score of every candidate is the additive scheme
  \<open>spec_score\<close> (+10 per navigation segment that is a whole file segment, +20 per adjacent
  pair found joined in the file path, +30 when the last navigation segment is a
  case-insensitive substring of the file path).
\<close>

theorem selectBestMatchingFile_first_highest:
  assumes "2 \<le> length candidates"
  shows "\<exists>k < length candidates.
           selectBestMatchingFile nav candidates = Some (candidates ! k)
         \<and> (\<forall>j < length candidates.
               calculatePathRelevance (candidates ! j) nav
                 \<le> calculatePathRelevance (candidates ! k) nav)
         \<and> (\<forall>j < k. calculatePathRelevance (candidates ! j) nav
                 < calculatePathRelevance (candidates ! k) nav)
         \<and> (\<forall>j < length candidates.
               calculatePathRelevance (candidates ! j) nav = spec_score (candidates ! j) nav)"
proof -
  from assms have "candidates \<noteq> []" by auto
  from selectBestMatchingFile_nonempty [OF this, of nav] show ?thesis
    by (auto simp: calculatePathRelevance_spec)
qed

theorem selectBestMatchingFile_first_highest_witness:
  "2 \<le> length [''a/widgets/foo.ts'', ''b/dashboard/foo.ts'']
   \<and> selectBestMatchingFile ''/dashboard/settings'' [''a/widgets/foo.ts'', ''b/dashboard/foo.ts'']
       = Some ''b/dashboard/foo.ts''
   \<and> spec_score ''a/widgets/foo.ts'' ''/dashboard/settings'' = 0
   \<and> spec_score ''b/dashboard/foo.ts'' ''/dashboard/settings'' = 10
   \<and> (\<exists>k < length [''a/widgets/foo.ts'', ''b/dashboard/foo.ts''].
           selectBestMatchingFile ''/dashboard/settings'' [''a/widgets/foo.ts'', ''b/dashboard/foo.ts'']
              = Some ([''a/widgets/foo.ts'', ''b/dashboard/foo.ts''] ! k)
         \<and> (\<forall>j < k. calculatePathRelevance ([''a/widgets/foo.ts'', ''b/dashboard/foo.ts''] ! j) ''/dashboard/settings''
                 < calculatePathRelevance ([''a/widgets/foo.ts'', ''b/dashboard/foo.ts''] ! k) ''/dashboard/settings''))"
proof -
  have len: "2 \<le> length [''a/widgets/foo.ts'', ''b/dashboard/foo.ts'']" by simp
  have sel: "selectBestMatchingFile ''/dashboard/settings'' [''a/widgets/foo.ts'', ''b/dashboard/foo.ts'']
       = Some ''b/dashboard/foo.ts''" by code_simp
  have s1: "spec_score ''a/widgets/foo.ts'' ''/dashboard/settings'' = 0" by code_simp
  have s2: "spec_score ''b/dashboard/foo.ts'' ''/dashboard/settings'' = 10" by code_simp
  from selectBestMatchingFile_first_highest [OF len, of "''/dashboard/settings''"]
  have "\<exists>k < length [''a/widgets/foo.ts'', ''b/dashboard/foo.ts''].
           selectBestMatchingFile ''/dashboard/settings'' [''a/widgets/foo.ts'', ''b/dashboard/foo.ts'']
              = Some ([''a/widgets/foo.ts'', ''b/dashboard/foo.ts''] ! k)
         \<and> (\<forall>j < k. calculatePathRelevance ([''a/widgets/foo.ts'', ''b/dashboard/foo.ts''] ! j) ''/dashboard/settings''
                 < calculatePathRelevance ([''a/widgets/foo.ts'', ''b/dashboard/foo.ts''] ! k) ''/dashboard/settings'')"
    by blast
  with len sel s1 s2 show ?thesis by blast
qed

subsection \<open>Exact identifier first, stripped identifier second\<close>






text \<open>The identifiers left out above are found in the prototype.\<close>

lemma resolver_inherited_member:
  "getComponentInfoByClassName ''/''
       (Some \<lparr>detailByFilePath =
          [(''/w/foo.ts'', \<lparr>className = ''Foo'', filePath = ''/w/foo.ts'', templateUrl = None\<rparr>)],
        filePathsByClassName = [(''Foo'', [''/w/foo.ts''])]\<rparr>) ''__defineGetter__''
     = Inl TypeError"
  by code_simp

section \<open>Properties of the source index builder\<close>

subsection \<open>Association lists as JavaScript objects\<close>

lemma map_of_assign: "map_of (assign k v al) = (map_of al)(k \<mapsto> v)"
  by (induction k v al rule: assign.induct) (auto simp: fun_eq_iff)

lemma keys_assign:
  "map fst (assign k v al) = (if k \<in> fst ` set al then map fst al else map fst al @ [k])"
  by (induction k v al rule: assign.induct) (auto simp: image_iff)

subsection \<open>The scan as one loop over the component records\<close>

lemma fold_result_append:
  "fold_result body s (xs @ ys) =
     (case fold_result body s xs of Inl e \<Rightarrow> Inl e | Inr s' \<Rightarrow> fold_result body s' ys)"
  by (induction xs arbitrary: s) (auto split: sum.splits)

lemma fold_scan_class:
  "fold_result (scan_class wd sfp) m cs
     = fold_result add_record m (List.map_filter (component_record wd sfp) cs)"
  by (induction cs arbitrary: m)
     (auto simp: List.map_filter_simps scan_class_def split: option.splits sum.splits)

lemma fold_scan_file:
  "fold_result (scan_file wd) m sfs
     = fold_result add_record m
         (concat (map (\<lambda>sf. List.map_filter (component_record wd (getFilePath sf))
                                 (getClasses sf)) sfs))"
  by (induction sfs arbitrary: m)
     (auto simp: scan_file_def fold_scan_class fold_result_append split: sum.splits)

lemma scan_files_fold:
  "scan_files wd sfs = fold_result add_record empty_map (found_components wd sfs)"
  by (simp add: scan_files_def found_components_def fold_scan_file)

subsection \<open>Contents of the two maps\<close>

lemma push_file_path_own_name:
  assumes "n \<notin> set object_prototype_keys"
  shows "\<exists>byName'. push_file_path n p byName = Inr byName'
     \<and> (\<forall>n'. map_of byName' n' =
           (if n' = n
            then Some (case map_of byName n of
                         None \<Rightarrow> [p]
                       | Some ps \<Rightarrow> if p \<in> set ps then ps else ps @ [p])
            else map_of byName n'))
     \<and> (distinct (map fst byName) \<longrightarrow> distinct (map fst byName'))"
  using assms
  by (auto simp: push_file_path_def get_property_def map_of_assign keys_assign
      split: option.splits)

lemma push_file_path_inherited:
  assumes "n \<in> set object_prototype_keys" and "map_of byName n = None"
  shows "push_file_path n p byName = Inl TypeError"
  using assms by (simp add: push_file_path_def get_property_def)

lemma first_seen_snoc:
  "first_seen (xs @ [x]) = (if x \<in> set xs then first_seen xs else first_seen xs @ [x])"
  by (simp add: first_seen_def)

lemma set_first_seen [simp]: "set (first_seen xs) = set xs"
  by (simp add: first_seen_def)

lemma first_seen_Nil_iff [simp]: "first_seen xs = [] \<longleftrightarrow> xs = []"
  by (metis set_first_seen set_empty)

text \<open>What holds of the map while the records scanned so far are entered.\<close>

lemma fold_add_record:
  assumes "\<forall>r \<in> set recs. className r \<notin> set object_prototype_keys"
  shows "\<exists>m. fold_result add_record empty_map recs = Inr m
     \<and> (\<forall>p. map_of (detailByFilePath m) p = find (\<lambda>r. filePath r = p) (rev recs))
     \<and> distinct (map fst (detailByFilePath m))
     \<and> (\<forall>n. map_of (filePathsByClassName m) n
           = (let ps = first_seen (map filePath (filter (\<lambda>r. className r = n) recs))
              in if ps = [] then None else Some ps))
     \<and> distinct (map fst (filePathsByClassName m))"
  using assms
proof (induction recs rule: rev_induct)
  case Nil
  then show ?case by (simp add: empty_map_def first_seen_def)
next
  case (snoc r recs)
  then obtain m where m: "fold_result add_record empty_map recs = Inr m"
    and det: "\<forall>p. map_of (detailByFilePath m) p = find (\<lambda>r. filePath r = p) (rev recs)"
    and dd: "distinct (map fst (detailByFilePath m))"
    and byn: "\<forall>n. map_of (filePathsByClassName m) n
           = (let ps = first_seen (map filePath (filter (\<lambda>r. className r = n) recs))
              in if ps = [] then None else Some ps)"
    and dn: "distinct (map fst (filePathsByClassName m))"
    by auto
  from snoc.prems have own: "className r \<notin> set object_prototype_keys"
    by simp
  from push_file_path_own_name [OF own, of "filePath r" "filePathsByClassName m"] dn
  obtain byName' where push: "push_file_path (className r) (filePath r) (filePathsByClassName m)
        = Inr byName'"
    and look: "\<forall>n'. map_of byName' n' =
           (if n' = className r
            then Some (case map_of (filePathsByClassName m) (className r) of
                         None \<Rightarrow> [filePath r]
                       | Some ps \<Rightarrow> if filePath r \<in> set ps then ps else ps @ [filePath r])
            else map_of (filePathsByClassName m) n')"
    and dn': "distinct (map fst byName')"
    by blast
  let ?m' = "\<lparr>detailByFilePath = assign (filePath r) r (detailByFilePath m),
              filePathsByClassName = byName'\<rparr>"
  have run: "fold_result add_record empty_map (recs @ [r]) = Inr ?m'"
    by (simp add: fold_result_append m add_record_def push)
  have det': "\<forall>p. map_of (detailByFilePath ?m') p = find (\<lambda>x. filePath x = p) (rev (recs @ [r]))"
    using det by (auto simp: map_of_assign)
  have dd': "distinct (map fst (detailByFilePath ?m'))"
    using dd by (auto simp: keys_assign)
  have byn': "map_of (filePathsByClassName ?m') n
           = (let ps = first_seen (map filePath (filter (\<lambda>x. className x = n) (recs @ [r])))
              in if ps = [] then None else Some ps)" for n
  proof (cases "className r = n")
    case True
    then show ?thesis
      using look byn
      by (auto simp: first_seen_snoc Let_def filter_empty_conv split: option.splits if_splits)
  next
    case False
    then show ?thesis
      using look byn by (auto simp: Let_def)
  qed
  from run det' dd' byn' dn' show ?case
    by (intro exI [of _ ?m']) simp
qed

lemma component_record_name:
  "component_record wd sfp cls = Some r \<Longrightarrow> className r \<noteq> []"
  by (auto simp: component_record_def Let_def split: option.splits first_argument.splits if_splits)

lemma found_components_names:
  "r \<in> set (found_components wd sfs) \<Longrightarrow> className r \<noteq> []"
  by (auto simp: found_components_def List.map_filter_def dest: component_record_name)

lemma contents_integrity:
  assumes det: "\<forall>p. map_of (detailByFilePath m) p = find (\<lambda>r. filePath r = p) (rev recs)"
    and byn: "\<forall>n. map_of (filePathsByClassName m) n
           = (let ps = first_seen (map filePath (filter (\<lambda>r. className r = n) recs))
              in if ps = [] then None else Some ps)"
    and dn: "distinct (map fst (filePathsByClassName m))"
  shows "referential_integrity m"
proof -
  have "map_of (detailByFilePath m) p \<noteq> None"
    if "(n, ps) \<in> set (filePathsByClassName m)" "p \<in> set ps" for n ps p
  proof -
    from that(1) dn have "map_of (filePathsByClassName m) n = Some ps"
      by simp
    with byn have "ps = first_seen (map filePath (filter (\<lambda>r. className r = n) recs))"
      by (simp add: Let_def split: if_splits)
    with that(2) obtain r where "r \<in> set recs" "filePath r = p"
      by auto
    then have "find (\<lambda>r. filePath r = p) (rev recs) \<noteq> None"
      by (auto simp: find_None_iff)
    with det show ?thesis by simp
  qed
  then show ?thesis
    unfolding referential_integrity_def by auto
qed

lemma scan_files_well_formed:
  assumes "scan_files wd sfs = Inr m"
  shows "well_formed_index m"
proof -
  let ?recs = "found_components wd sfs"
  have run: "fold_result add_record empty_map ?recs = Inr m"
    using assms by (simp add: scan_files_fold)
  have own: "\<forall>r \<in> set ?recs. className r \<notin> set object_prototype_keys"
  proof (rule ccontr)
    assume "\<not> ?thesis"
    then have "\<exists>x \<in> set ?recs. className x \<in> set object_prototype_keys"
      by blast
    from split_list_first_prop [OF this]
    obtain pre r post where split: "?recs = pre @ r # post"
      and bad: "className r \<in> set object_prototype_keys"
      and first: "\<forall>x \<in> set pre. className x \<notin> set object_prototype_keys"
      by blast
    from fold_add_record [OF first] obtain m0 where m0: "fold_result add_record empty_map pre = Inr m0"
      and byn: "\<forall>n. map_of (filePathsByClassName m0) n
           = (let ps = first_seen (map filePath (filter (\<lambda>r. className r = n) pre))
              in if ps = [] then None else Some ps)"
      by blast
    have "filter (\<lambda>x. className x = className r) pre = []"
      using first bad by (auto simp: filter_empty_conv)
    with byn have "map_of (filePathsByClassName m0) (className r) = None"
      by (simp add: first_seen_def)
    from push_file_path_inherited [OF bad this]
    have "add_record m0 r = Inl TypeError"
      by (simp add: add_record_def)
    then have "fold_result add_record empty_map ?recs = Inl TypeError"
      unfolding split by (simp add: fold_result_append m0)
    with run show False by simp
  qed
  from fold_add_record [OF own] run
  have det: "\<forall>p. map_of (detailByFilePath m) p = find (\<lambda>r. filePath r = p) (rev ?recs)"
    and byn: "\<forall>n. map_of (filePathsByClassName m) n
           = (let ps = first_seen (map filePath (filter (\<lambda>r. className r = n) ?recs))
              in if ps = [] then None else Some ps)"
    and dn: "distinct (map fst (filePathsByClassName m))"
    by auto
  have "filter (\<lambda>r. className r = []) ?recs = []"
    using found_components_names [of _ wd sfs] by (auto simp: filter_empty_conv)
  with byn have "candidates_of m [] = []"
    by (simp add: candidates_of_def first_seen_def)
  with contents_integrity [OF det byn dn] show ?thesis
    by (simp add: well_formed_index_def)
qed

text \<open>
  Claim C5, as the code has it.  When no Component class bears the name of a member of
  \<^verbatim>\<open>Object.prototype\<close>, the scan builds an index.  \<open>detailByFilePath\<close> is keyed by file
  path alone, so the index holds exactly one record per file path that has a Component
  class, and no record for a file without one: the record stored under a path is that of
  the last Component class scanned with that path (an earlier class of the same file is
  overwritten).  \<open>filePathsByClassName\<close> lists under every identifier the paths of the
  Component classes of that name, without repetition and in first-seen order, and has no
  entry for other identifiers.  Every listed path has a record (referential integrity).
\<close>

theorem scan_files_index_contents:
  assumes "\<forall>r \<in> set (found_components wd files). className r \<notin> set object_prototype_keys"
  shows "\<exists>m. scan_files wd files = Inr m
     \<and> (\<forall>p. map_of (detailByFilePath m) p
             = find (\<lambda>r. filePath r = p) (rev (found_components wd files)))
     \<and> distinct (map fst (detailByFilePath m))
     \<and> (\<forall>n. map_of (filePathsByClassName m) n
             = (let ps = first_seen (map filePath
                           (filter (\<lambda>r. className r = n) (found_components wd files)))
                in if ps = [] then None else Some ps))
     \<and> distinct (map fst (filePathsByClassName m))
     \<and> referential_integrity m"
proof -
  from fold_add_record [OF assms] obtain m
    where run: "fold_result add_record empty_map (found_components wd files) = Inr m"
    and det: "\<forall>p. map_of (detailByFilePath m) p
             = find (\<lambda>r. filePath r = p) (rev (found_components wd files))"
    and dd: "distinct (map fst (detailByFilePath m))"
    and byn: "\<forall>n. map_of (filePathsByClassName m) n
             = (let ps = first_seen (map filePath
                           (filter (\<lambda>r. className r = n) (found_components wd files)))
                in if ps = [] then None else Some ps)"
    and dn: "distinct (map fst (filePathsByClassName m))"
    by blast
  from contents_integrity [OF det byn dn] have "referential_integrity m" .
  with run det dd byn dn show ?thesis
    unfolding scan_files_fold by blast
qed

theorem scan_files_index_contents_witness:
  "(\<exists>m. scan_files ''/w''
      [\<lparr>getFilePath = ''/w/a.ts'', getClasses =
          [\<lparr>getName = Some ''A'', getDecorators =
              [\<lparr>decoratorName = ''Component'', firstArgument = ObjectLiteral None\<rparr>]\<rparr>,
           \<lparr>getName = Some ''B'', getDecorators =
              [\<lparr>decoratorName = ''Component'', firstArgument = ObjectLiteral None\<rparr>]\<rparr>]\<rparr>,
       \<lparr>getFilePath = ''/w/b.ts'', getClasses =
          [\<lparr>getName = Some ''A'', getDecorators =
              [\<lparr>decoratorName = ''Component'',
                firstArgument = ObjectLiteral (Some ''./b.html'')\<rparr>]\<rparr>]\<rparr>] = Inr m
     \<and> map_of (detailByFilePath m) ''/w/a.ts''
         = Some \<lparr>className = ''B'', filePath = ''/w/a.ts'', templateUrl = None\<rparr>
     \<and> map_of (filePathsByClassName m) ''A'' = Some [''/w/a.ts'', ''/w/b.ts''])"
proof -
  let ?sfs = "[\<lparr>getFilePath = ''/w/a.ts'', getClasses =
          [\<lparr>getName = Some ''A'', getDecorators =
              [\<lparr>decoratorName = ''Component'', firstArgument = ObjectLiteral None\<rparr>]\<rparr>,
           \<lparr>getName = Some ''B'', getDecorators =
              [\<lparr>decoratorName = ''Component'', firstArgument = ObjectLiteral None\<rparr>]\<rparr>]\<rparr>,
       \<lparr>getFilePath = ''/w/b.ts'', getClasses =
          [\<lparr>getName = Some ''A'', getDecorators =
              [\<lparr>decoratorName = ''Component'',
                firstArgument = ObjectLiteral (Some ''./b.html'')\<rparr>]\<rparr>]\<rparr>]"
  have found: "found_components ''/w'' ?sfs =
      [\<lparr>className = ''A'', filePath = ''/w/a.ts'', templateUrl = None\<rparr>,
       \<lparr>className = ''B'', filePath = ''/w/a.ts'', templateUrl = None\<rparr>,
       \<lparr>className = ''A'', filePath = ''/w/b.ts'', templateUrl = Some ''/w/b.html''\<rparr>]"
    by code_simp
  have own: "\<forall>r \<in> set (found_components ''/w'' ?sfs).
      className r \<notin> set object_prototype_keys"
    unfolding found by code_simp
  from scan_files_index_contents [OF own]
  obtain m where run: "scan_files ''/w'' ?sfs = Inr m"
    and d: "map_of (detailByFilePath m) ''/w/a.ts''
        = find (\<lambda>r. filePath r = ''/w/a.ts'') (rev (found_components ''/w'' ?sfs))"
    and n: "map_of (filePathsByClassName m) ''A''
        = (let ps = first_seen (map filePath
                      (filter (\<lambda>r. className r = ''A'') (found_components ''/w'' ?sfs)))
           in if ps = [] then None else Some ps)"
    by blast
  have "map_of (detailByFilePath m) ''/w/a.ts''
      = Some \<lparr>className = ''B'', filePath = ''/w/a.ts'', templateUrl = None\<rparr>"
    unfolding d found by simp
  moreover have "map_of (filePathsByClassName m) ''A'' = Some [''/w/a.ts'', ''/w/b.ts'']"
    unfolding n found by (simp add: first_seen_def)
  ultimately show ?thesis using run by blast
qed

text \<open>
  Claim C5 as stated fails on a file with two Component classes: class \<open>A\<close> is found
  by the scan, yet the index holds a single record for the file, that of class \<open>B\<close>, and
  resolving \<open>A\<close> answers with the record of \<open>B\<close>.
\<close>

theorem scan_files_two_classes_counterexample:
  "\<lparr>className = ''A'', filePath = ''/w/a.ts'', templateUrl = None\<rparr>
      \<in> set (found_components ''/w''
          [\<lparr>getFilePath = ''/w/a.ts'', getClasses =
             [\<lparr>getName = Some ''A'', getDecorators =
                 [\<lparr>decoratorName = ''Component'', firstArgument = ObjectLiteral None\<rparr>]\<rparr>,
              \<lparr>getName = Some ''B'', getDecorators =
                 [\<lparr>decoratorName = ''Component'', firstArgument = ObjectLiteral None\<rparr>]\<rparr>]\<rparr>])
   \<and> scan_files ''/w''
          [\<lparr>getFilePath = ''/w/a.ts'', getClasses =
             [\<lparr>getName = Some ''A'', getDecorators =
                 [\<lparr>decoratorName = ''Component'', firstArgument = ObjectLiteral None\<rparr>]\<rparr>,
              \<lparr>getName = Some ''B'', getDecorators =
                 [\<lparr>decoratorName = ''Component'', firstArgument = ObjectLiteral None\<rparr>]\<rparr>]\<rparr>]
       = Inr \<lparr>detailByFilePath =
          [(''/w/a.ts'', \<lparr>className = ''B'', filePath = ''/w/a.ts'', templateUrl = None\<rparr>)],
        filePathsByClassName = [(''A'', [''/w/a.ts'']), (''B'', [''/w/a.ts''])]\<rparr>
   \<and> getComponentInfoByClassName ''/''
        (Some \<lparr>detailByFilePath =
          [(''/w/a.ts'', \<lparr>className = ''B'', filePath = ''/w/a.ts'', templateUrl = None\<rparr>)],
        filePathsByClassName = [(''A'', [''/w/a.ts'']), (''B'', [''/w/a.ts''])]\<rparr>) ''A''
       = Inr (Own \<lparr>className = ''B'', filePath = ''/w/a.ts'', templateUrl = None\<rparr>)"
  by code_simp

text \<open>
  A Component class whose name is the name of a member of \<^verbatim>\<open>Object.prototype\<close> ends the
  scan with the exception: no map is built.
\<close>

lemma scan_files_inherited_name:
  "scan_files ''/w''
     [\<lparr>getFilePath = ''/w/a.ts'', getClasses =
        [\<lparr>getName = Some ''constructor'', getDecorators =
            [\<lparr>decoratorName = ''Component'', firstArgument = ObjectLiteral None\<rparr>]\<rparr>]\<rparr>]
     = Inl TypeError"
  by code_simp

section \<open>Properties of change detection and persistence\<close>

lemma map_of_getFileStats_acc:
  "map_of (getFileStats fs ps acc) p =
     (if p \<in> set ps \<and> map_of fs p \<noteq> None then map_of fs p else map_of acc p)"
  by (induction ps arbitrary: acc) (auto simp: map_of_assign split: option.splits)

lemma map_of_getFileStats:
  "map_of (getFileStats fs ps []) p = (if p \<in> set ps then map_of fs p else None)"
  by (simp add: map_of_getFileStats_acc)

lemma not_falsy_iff: "\<not> falsy v \<longleftrightarrow> (\<exists>t. t \<noteq> 0 \<and> v = Some t)"
  by (cases v) (auto simp: falsy_def)

lemma main_unchanged:
  "main e d = (if \<not> mkdirOk e then (Failed, d)
               else if \<not> shouldRebuild e d then (Unchanged, d)
               else (case scan_files (cwd e) (sourceFiles e) of
                       Inl err \<Rightarrow> (Failed, d)
                     | Inr m \<Rightarrow>
                         if \<not> indexWriteOk e then (Failed, d)
                         else if \<not> cacheWriteOk e
                         then (Failed, d\<lparr>indexFile := Some (map_file e m)\<rparr>)
                         else (Saved, \<lparr>indexFile = Some (map_file e m),
                                       cacheFile = Some (currentStats e)\<rparr>)))"
  by (auto simp: main_def shouldRebuild_def currentStats_def map_file_def Let_def
      split: sum.splits)

text \<open>
  Claim C3 fails on the code for a file whose modification time is 0.  The candidate set
  and the cached set are the same, the timestamps are equal and the index file exists;
  the run nevertheless rebuilds and replaces the index, because the tests
  \<^verbatim>\<open>!previousCache[filePath]\<close> and \<^verbatim>\<open>!currentStats[p]\<close> take the timestamp 0 for a
  missing entry.
\<close>

theorem main_zero_timestamp_rebuilds:
  "map getFilePath (sourceFiles
     \<lparr>cwd = ''/w'', sourceFiles = [\<lparr>getFilePath = ''/w/a.ts'', getClasses = []\<rparr>],
        statSync = [(''/w/a.ts'', 0)], now = ''t1'', mkdirOk = True, indexWriteOk = True,
        cacheWriteOk = True\<rparr>)
     = map fst (loadCache
     \<lparr>indexFile = Some \<lparr>detailByFilePath = [], filePathsByClassName = [], generatedAt = ''t0''\<rparr>,
        cacheFile = Some [(''/w/a.ts'', 0)]\<rparr>)
   \<and> map_of (loadCache
     \<lparr>indexFile = Some \<lparr>detailByFilePath = [], filePathsByClassName = [], generatedAt = ''t0''\<rparr>,
        cacheFile = Some [(''/w/a.ts'', 0)]\<rparr>) ''/w/a.ts''
     = map_of (statSync
     \<lparr>cwd = ''/w'', sourceFiles = [\<lparr>getFilePath = ''/w/a.ts'', getClasses = []\<rparr>],
        statSync = [(''/w/a.ts'', 0)], now = ''t1'', mkdirOk = True, indexWriteOk = True,
        cacheWriteOk = True\<rparr>) ''/w/a.ts''
   \<and> indexFile
     \<lparr>indexFile = Some \<lparr>detailByFilePath = [], filePathsByClassName = [], generatedAt = ''t0''\<rparr>,
        cacheFile = Some [(''/w/a.ts'', 0)]\<rparr> \<noteq> None
   \<and> main
     \<lparr>cwd = ''/w'', sourceFiles = [\<lparr>getFilePath = ''/w/a.ts'', getClasses = []\<rparr>],
        statSync = [(''/w/a.ts'', 0)], now = ''t1'', mkdirOk = True, indexWriteOk = True,
        cacheWriteOk = True\<rparr>
     \<lparr>indexFile = Some \<lparr>detailByFilePath = [], filePathsByClassName = [], generatedAt = ''t0''\<rparr>,
        cacheFile = Some [(''/w/a.ts'', 0)]\<rparr>
     = (Saved,
     \<lparr>indexFile = Some \<lparr>detailByFilePath = [], filePathsByClassName = [], generatedAt = ''t1''\<rparr>,
        cacheFile = Some [(''/w/a.ts'', 0)]\<rparr>)"
  by code_simp

text \<open>
  With timestamps other than 0 the test is the one claimed: for distinct candidate paths
  and distinct cached paths, no rebuild is needed exactly when the two sets have the same
  members, every candidate's timestamp equals its cached timestamp and the index file
  exists.
\<close>

lemma clean_iff:
  assumes dF: "distinct F" and dK: "distinct (map fst C)"
  shows "(\<not> hasChanges F C (getFileStats fs F []) \<and> \<not> hasNewOrDeletedFiles F C (getFileStats fs F []))
     \<longleftrightarrow> (set F = set (map fst C)
          \<and> (\<forall>p \<in> set F. \<exists>t. t \<noteq> 0 \<and> map_of C p = Some t \<and> map_of fs p = Some t))"
    (is "?L \<longleftrightarrow> ?R")
proof
  assume L: ?L
  have each: "\<exists>t. t \<noteq> 0 \<and> map_of C p = Some t \<and> map_of fs p = Some t" if "p \<in> set F" for p
  proof -
    from L that have "\<not> falsy (map_of C p)"
      and eq: "map_of C p = map_of (getFileStats fs F []) p"
      by (auto simp: hasChanges_def list_ex_iff)
    then obtain t where "t \<noteq> 0" "map_of C p = Some t"
      by (auto simp: not_falsy_iff)
    with eq that show ?thesis
      by (auto simp: map_of_getFileStats)
  qed
  have sub: "set F \<subseteq> set (map fst C)"
  proof
    fix p assume "p \<in> set F"
    from each [OF this] obtain t where "map_of C p = Some t" by blast
    then have "(p, t) \<in> set C" by (rule map_of_SomeD)
    then show "p \<in> set (map fst C)" by force
  qed
  from L have len: "length F = length (map fst C)"
    by (simp add: hasNewOrDeletedFiles_def Let_def)
  have "card (set F) = length F"
    using dF by (rule distinct_card)
  moreover have "card (set (map fst C)) = length (map fst C)"
    using dK by (rule distinct_card)
  ultimately have "card (set F) = card (set (map fst C))"
    using len by presburger
  with sub have "set F = set (map fst C)"
    by (intro card_subset_eq) auto
  with each show ?R by blast
next
  assume R: ?R
  then have seteq: "set F = set (map fst C)"
    and each: "\<forall>p \<in> set F. \<exists>t. t \<noteq> 0 \<and> map_of C p = Some t \<and> map_of fs p = Some t"
    by blast+
  have len: "length F = length (map fst C)"
    using dF dK seteq by (metis distinct_card)
  have a: "\<forall>p \<in> set F. \<not> falsy (map_of C p)"
    using each by (auto simp: not_falsy_iff)
  have b: "\<forall>p \<in> set F. map_of C p = map_of (getFileStats fs F []) p"
    using each by (auto simp: map_of_getFileStats)
  have c: "\<forall>p \<in> set (map fst C). \<not> falsy (map_of (getFileStats fs F []) p)"
  proof
    fix p assume "p \<in> set (map fst C)"
    with seteq have "p \<in> set F" by simp
    with each show "\<not> falsy (map_of (getFileStats fs F []) p)"
      by (auto simp: not_falsy_iff map_of_getFileStats)
  qed
  from a b have "\<not> hasChanges F C (getFileStats fs F [])"
    by (auto simp: hasChanges_def list_ex_iff)
  moreover from len a c have "\<not> hasNewOrDeletedFiles F C (getFileStats fs F [])"
    unfolding hasNewOrDeletedFiles_def Let_def list_ex_iff by blast
  ultimately show ?L by blast
qed

lemma shouldRebuild_nonzero_iff:
  assumes "distinct (map getFilePath (sourceFiles e))"
    and "distinct (map fst (loadCache d))"
  shows "\<not> shouldRebuild e d \<longleftrightarrow>
            set (map getFilePath (sourceFiles e)) = set (map fst (loadCache d))
          \<and> (\<forall>p \<in> set (map getFilePath (sourceFiles e)).
                \<exists>t. t \<noteq> 0 \<and> map_of (loadCache d) p = Some t \<and> map_of (statSync e) p = Some t)
          \<and> indexFile d \<noteq> None"
  using clean_iff [OF assms, of "statSync e"]
  unfolding shouldRebuild_def currentStats_def by blast

text \<open>
  Claim C8, as the code has it.  A run whose index write fails leaves the persistent
  state, the cache included, as it was, and the cache changes only in a run that has
  written the newly built index before.  A rebuild whose two writes succeed ends normally
  with the new index and with the cache replaced by the timestamps of the current
  candidate files.  A rebuild whose index write succeeds and whose cache write fails
  leaves the new index next to the old cache.
\<close>

theorem main_cache_after_index:
  "(\<not> indexWriteOk e \<longrightarrow> snd (main e d) = d)
   \<and> (cacheFile (snd (main e d)) \<noteq> cacheFile d \<longrightarrow>
        indexWriteOk e
      \<and> (\<exists>m. scan_files (cwd e) (sourceFiles e) = Inr m
             \<and> main e d = (Saved, \<lparr>indexFile = Some (map_file e m),
                                     cacheFile = Some (currentStats e)\<rparr>)))
   \<and> (\<forall>m. mkdirOk e \<and> shouldRebuild e d \<and> scan_files (cwd e) (sourceFiles e) = Inr m \<longrightarrow>
        (\<not> indexWriteOk e \<longrightarrow> main e d = (Failed, d))
      \<and> (indexWriteOk e \<and> \<not> cacheWriteOk e \<longrightarrow>
           main e d = (Failed, d\<lparr>indexFile := Some (map_file e m)\<rparr>))
      \<and> (indexWriteOk e \<and> cacheWriteOk e \<longrightarrow>
           main e d = (Saved, \<lparr>indexFile = Some (map_file e m),
                                cacheFile = Some (currentStats e)\<rparr>)))
   \<and> (\<forall>p. map_of (currentStats e) p =
          (if p \<in> set (map getFilePath (sourceFiles e)) then map_of (statSync e) p else None))"
proof -
  have p1: "\<not> indexWriteOk e \<longrightarrow> snd (main e d) = d"
    by (auto simp: main_unchanged split: sum.splits)
  have p2: "cacheFile (snd (main e d)) \<noteq> cacheFile d \<longrightarrow>
        indexWriteOk e
      \<and> (\<exists>m. scan_files (cwd e) (sourceFiles e) = Inr m
             \<and> main e d = (Saved, \<lparr>indexFile = Some (map_file e m),
                                     cacheFile = Some (currentStats e)\<rparr>))"
    by (auto simp: main_unchanged split: sum.splits if_splits)
  have p3: "\<forall>m. mkdirOk e \<and> shouldRebuild e d \<and> scan_files (cwd e) (sourceFiles e) = Inr m \<longrightarrow>
        (\<not> indexWriteOk e \<longrightarrow> main e d = (Failed, d))
      \<and> (indexWriteOk e \<and> \<not> cacheWriteOk e \<longrightarrow>
           main e d = (Failed, d\<lparr>indexFile := Some (map_file e m)\<rparr>))
      \<and> (indexWriteOk e \<and> cacheWriteOk e \<longrightarrow>
           main e d = (Saved, \<lparr>indexFile = Some (map_file e m),
                                cacheFile = Some (currentStats e)\<rparr>))"
    by (simp add: main_unchanged)
  have p4: "\<forall>p. map_of (currentStats e) p =
          (if p \<in> set (map getFilePath (sourceFiles e)) then map_of (statSync e) p else None)"
    by (simp add: currentStats_def map_of_getFileStats)
  from p1 p2 p3 p4 show ?thesis by blast
qed

theorem main_cache_after_index_witness:
  "main
     \<lparr>cwd = ''/w'', sourceFiles = [\<lparr>getFilePath = ''/w/a.ts'', getClasses =
           [\<lparr>getName = Some ''A'', getDecorators =
              [\<lparr>decoratorName = ''Component'', firstArgument = ObjectLiteral None\<rparr>]\<rparr>]\<rparr>],
        statSync = [(''/w/a.ts'', 1700000000500)], now = ''t2'', mkdirOk = True, indexWriteOk = False,
        cacheWriteOk = True\<rparr>
     \<lparr>indexFile = Some \<lparr>detailByFilePath =
           [(''/w/a.ts'', \<lparr>className = ''A'', filePath = ''/w/a.ts'', templateUrl = None\<rparr>)],
          filePathsByClassName = [(''A'', [''/w/a.ts''])], generatedAt = ''t1''\<rparr>,
        cacheFile = Some [(''/w/a.ts'', 1700000000000)]\<rparr>
     = (Failed,
     \<lparr>indexFile = Some \<lparr>detailByFilePath =
           [(''/w/a.ts'', \<lparr>className = ''A'', filePath = ''/w/a.ts'', templateUrl = None\<rparr>)],
          filePathsByClassName = [(''A'', [''/w/a.ts''])], generatedAt = ''t1''\<rparr>,
        cacheFile = Some [(''/w/a.ts'', 1700000000000)]\<rparr>)
   \<and> main
     \<lparr>cwd = ''/w'', sourceFiles = [\<lparr>getFilePath = ''/w/a.ts'', getClasses =
           [\<lparr>getName = Some ''A'', getDecorators =
              [\<lparr>decoratorName = ''Component'', firstArgument = ObjectLiteral None\<rparr>]\<rparr>]\<rparr>],
        statSync = [(''/w/a.ts'', 1700000000500)], now = ''t2'', mkdirOk = True, indexWriteOk = True,
        cacheWriteOk = True\<rparr>
     \<lparr>indexFile = Some \<lparr>detailByFilePath =
           [(''/w/a.ts'', \<lparr>className = ''A'', filePath = ''/w/a.ts'', templateUrl = None\<rparr>)],
          filePathsByClassName = [(''A'', [''/w/a.ts''])], generatedAt = ''t1''\<rparr>,
        cacheFile = Some [(''/w/a.ts'', 1700000000000)]\<rparr>
     = (Saved,
     \<lparr>indexFile = Some \<lparr>detailByFilePath =
           [(''/w/a.ts'', \<lparr>className = ''A'', filePath = ''/w/a.ts'', templateUrl = None\<rparr>)],
          filePathsByClassName = [(''A'', [''/w/a.ts''])], generatedAt = ''t2''\<rparr>,
        cacheFile = Some [(''/w/a.ts'', 1700000000500)]\<rparr>)"
proof -
  let ?ew = "\<lparr>cwd = ''/w'', sourceFiles = [\<lparr>getFilePath = ''/w/a.ts'', getClasses =
           [\<lparr>getName = Some ''A'', getDecorators =
              [\<lparr>decoratorName = ''Component'', firstArgument = ObjectLiteral None\<rparr>]\<rparr>]\<rparr>],
        statSync = [(''/w/a.ts'', 1700000000500)], now = ''t2'', mkdirOk = True, indexWriteOk = False,
        cacheWriteOk = True\<rparr>"
  let ?es = "\<lparr>cwd = ''/w'', sourceFiles = [\<lparr>getFilePath = ''/w/a.ts'', getClasses =
           [\<lparr>getName = Some ''A'', getDecorators =
              [\<lparr>decoratorName = ''Component'', firstArgument = ObjectLiteral None\<rparr>]\<rparr>]\<rparr>],
        statSync = [(''/w/a.ts'', 1700000000500)], now = ''t2'', mkdirOk = True, indexWriteOk = True,
        cacheWriteOk = True\<rparr>"
  let ?d = "\<lparr>indexFile = Some \<lparr>detailByFilePath =
           [(''/w/a.ts'', \<lparr>className = ''A'', filePath = ''/w/a.ts'', templateUrl = None\<rparr>)],
          filePathsByClassName = [(''A'', [''/w/a.ts''])], generatedAt = ''t1''\<rparr>,
        cacheFile = Some [(''/w/a.ts'', 1700000000000)]\<rparr>"
  let ?m = "\<lparr>detailByFilePath =
           [(''/w/a.ts'', \<lparr>className = ''A'', filePath = ''/w/a.ts'', templateUrl = None\<rparr>)],
          filePathsByClassName = [(''A'', [''/w/a.ts''])]\<rparr>"
  have hw: "mkdirOk ?ew \<and> shouldRebuild ?ew ?d \<and> scan_files (cwd ?ew) (sourceFiles ?ew) = Inr ?m"
    by code_simp
  have hs: "mkdirOk ?es \<and> shouldRebuild ?es ?d \<and> scan_files (cwd ?es) (sourceFiles ?es) = Inr ?m"
    by code_simp
  have fw: "\<not> indexWriteOk ?ew" by simp
  have fs: "indexWriteOk ?es \<and> cacheWriteOk ?es" by simp
  from main_cache_after_index [of ?ew ?d] hw fw
  have r1: "main ?ew ?d = (Failed, ?d)"
    by blast
  from main_cache_after_index [of ?es ?d] hs fs
  have "main ?es ?d = (Saved, \<lparr>indexFile = Some (map_file ?es ?m),
                                 cacheFile = Some (currentStats ?es)\<rparr>)"
    by blast
  moreover have "map_file ?es ?m = \<lparr>detailByFilePath =
           [(''/w/a.ts'', \<lparr>className = ''A'', filePath = ''/w/a.ts'', templateUrl = None\<rparr>)],
          filePathsByClassName = [(''A'', [''/w/a.ts''])], generatedAt = ''t2''\<rparr>"
    by code_simp
  moreover have "currentStats ?es = [(''/w/a.ts'', 1700000000500)]"
    by code_simp
  ultimately have r2: "main ?es ?d = (Saved,
     \<lparr>indexFile = Some \<lparr>detailByFilePath =
           [(''/w/a.ts'', \<lparr>className = ''A'', filePath = ''/w/a.ts'', templateUrl = None\<rparr>)],
          filePathsByClassName = [(''A'', [''/w/a.ts''])], generatedAt = ''t2''\<rparr>,
        cacheFile = Some [(''/w/a.ts'', 1700000000500)]\<rparr>)"
    by simp
  from r1 r2 show ?thesis by blast
qed

text \<open>
  Claim C8 as stated fails in its consequence that a clean cache implies an up-to-date
  index.  In the first run the file \<^verbatim>\<open>/w/a.ts\<close> is indexed and cached.  In the second
  run the file is gone: the rebuild writes an empty index, and writing the cache fails,
  so the cache of the first run stays.  In the third run the file is back with its old
  timestamp: the cache is clean, the run stops before the scan, and the persisted index
  is still the empty one although the scan of the current files finds the component.
\<close>

theorem main_stale_index_counterexample:
  "main
     \<lparr>cwd = ''/w'', sourceFiles = [\<lparr>getFilePath = ''/w/a.ts'', getClasses =
           [\<lparr>getName = Some ''A'', getDecorators =
              [\<lparr>decoratorName = ''Component'', firstArgument = ObjectLiteral None\<rparr>]\<rparr>]\<rparr>],
        statSync = [(''/w/a.ts'', 1700000000000)], now = ''t1'', mkdirOk = True, indexWriteOk = True,
        cacheWriteOk = True\<rparr>
     \<lparr>indexFile = None,
        cacheFile = None\<rparr>
     = (Saved,
     \<lparr>indexFile = Some \<lparr>detailByFilePath =
           [(''/w/a.ts'', \<lparr>className = ''A'', filePath = ''/w/a.ts'', templateUrl = None\<rparr>)],
          filePathsByClassName = [(''A'', [''/w/a.ts''])], generatedAt = ''t1''\<rparr>,
        cacheFile = Some [(''/w/a.ts'', 1700000000000)]\<rparr>)
   \<and> main
     \<lparr>cwd = ''/w'', sourceFiles = [],
        statSync = [], now = ''t2'', mkdirOk = True, indexWriteOk = True,
        cacheWriteOk = False\<rparr>
     \<lparr>indexFile = Some \<lparr>detailByFilePath =
           [(''/w/a.ts'', \<lparr>className = ''A'', filePath = ''/w/a.ts'', templateUrl = None\<rparr>)],
          filePathsByClassName = [(''A'', [''/w/a.ts''])], generatedAt = ''t1''\<rparr>,
        cacheFile = Some [(''/w/a.ts'', 1700000000000)]\<rparr>
     = (Failed,
     \<lparr>indexFile = Some \<lparr>detailByFilePath = [], filePathsByClassName = [], generatedAt = ''t2''\<rparr>,
        cacheFile = Some [(''/w/a.ts'', 1700000000000)]\<rparr>)
   \<and> main
     \<lparr>cwd = ''/w'', sourceFiles = [\<lparr>getFilePath = ''/w/a.ts'', getClasses =
           [\<lparr>getName = Some ''A'', getDecorators =
              [\<lparr>decoratorName = ''Component'', firstArgument = ObjectLiteral None\<rparr>]\<rparr>]\<rparr>],
        statSync = [(''/w/a.ts'', 1700000000000)], now = ''t3'', mkdirOk = True, indexWriteOk = True,
        cacheWriteOk = True\<rparr>
     \<lparr>indexFile = Some \<lparr>detailByFilePath = [], filePathsByClassName = [], generatedAt = ''t2''\<rparr>,
        cacheFile = Some [(''/w/a.ts'', 1700000000000)]\<rparr>
     = (Unchanged,
     \<lparr>indexFile = Some \<lparr>detailByFilePath = [], filePathsByClassName = [], generatedAt = ''t2''\<rparr>,
        cacheFile = Some [(''/w/a.ts'', 1700000000000)]\<rparr>)
   \<and> scan_files ''/w'' [\<lparr>getFilePath = ''/w/a.ts'', getClasses =
           [\<lparr>getName = Some ''A'', getDecorators =
              [\<lparr>decoratorName = ''Component'', firstArgument = ObjectLiteral None\<rparr>]\<rparr>]\<rparr>]
     = Inr \<lparr>detailByFilePath =
           [(''/w/a.ts'', \<lparr>className = ''A'', filePath = ''/w/a.ts'', templateUrl = None\<rparr>)],
          filePathsByClassName = [(''A'', [''/w/a.ts''])]\<rparr>"
  by code_simp

section \<open>Properties of the open dispatcher\<close>

lemma run_chain_append_fail:
  "\<forall>c \<in> set xs. \<not> succeeds L c \<Longrightarrow>
     run_chain L (xs @ ys) = (fst (run_chain L ys), xs @ snd (run_chain L ys))"
  by (induction xs) (auto split: prod.splits)

lemma run_chain_all_fail:
  "(\<forall>c \<in> set (snd (run_chain L calls)). \<not> succeeds L c) \<Longrightarrow> \<not> fst (run_chain L calls)"
  by (induction calls) (auto split: prod.splits if_splits)

lemma run_chain_length: "length (snd (run_chain L calls)) \<le> length calls"
  by (induction calls) (auto split: prod.splits)

lemma chain_length: "length (chain L target preferred) \<le> 3"
  by (auto simp: chain_def override_call_def editor_call_def split: option.splits)

lemma command_template_empty [simp]: "command_template cli [] = None"
  by (simp add: command_template_def)

lemma tryRun_own_name:
  assumes "editor \<notin> set object_prototype_keys"
  shows "tryRun L st target editor =
           (case editor_call L st target editor of
              [] \<Rightarrow> (Inr False, [])
            | call # _ \<Rightarrow> (Inr (succeeds L call), [call]))"
  using assms
  by (auto simp: tryRun_def COMMAND_TEMPLATES_def editor_call_def succeeds_def
      split: option.splits prod.splits)

lemma runOverride_chain:
  "runOverride L target =
     (case override_call L target of
        [] \<Rightarrow> (False, [])
      | call # _ \<Rightarrow> (succeeds L call, [call]))"
  by (auto simp: runOverride_def override_call_def succeeds_def Let_def split: option.splits)

lemma launchInEditor_chain:
  assumes "preferred \<notin> set object_prototype_keys"
    and "FALLBACK_EDITOR L \<notin> set object_prototype_keys"
  shows "launchInEditor L target preferred
           = (Inr (fst (run_chain L (chain L target preferred))),
              snd (run_chain L (chain L target preferred)))"
proof -
  have fb: "FALLBACK_EDITOR L = [] \<Longrightarrow> editor_call L Fallback target (FALLBACK_EDITOR L) = []"
    by (simp add: editor_call_def)
  have one: "\<And>st e. length (editor_call L st target e) \<le> 1"
    by (auto simp: editor_call_def split: option.splits)
  have ov: "length (override_call L target) \<le> 1"
    by (auto simp: override_call_def split: option.splits)
  show ?thesis
    unfolding launchInEditor_def chain_def runOverride_chain
      tryRun_own_name [OF assms(1)] tryRun_own_name [OF assms(2)]
    using fb one [of Preferred preferred] one [of Fallback "FALLBACK_EDITOR L"] ov
    by (cases "override_call L target"; cases "editor_call L Preferred target preferred";
        cases "editor_call L Fallback target (FALLBACK_EDITOR L)")
       (auto split: prod.splits)
qed

text \<open>
  Claim C6.  For a preferred and a fallback editor looked up among the templates (neither
  name being the name of a member of \<^verbatim>\<open>Object.prototype\<close>), \<open>launchInEditor\<close> runs the
  chain override, preferred editor, fallback editor in this order and stops at the first
  spawn that returns.  A configured override is called with the target appended, and its
  success ends the chain with that single call.  When the override is absent or throws,
  the preferred editor is tried, and its success ends the chain.  When the preferred
  editor's launch throws as well, the fallback editor is launched exactly once and its
  outcome is the result.  When every call made has thrown the result is failure, and no
  request makes more than three calls.
\<close>

theorem launchInEditor_priority_chain:
  assumes "preferred \<notin> set object_prototype_keys"
    and "FALLBACK_EDITOR L \<notin> set object_prototype_keys"
  shows "launchInEditor L target preferred
           = (Inr (fst (run_chain L (chain L target preferred))),
              snd (run_chain L (chain L target preferred)))
   \<and> (\<forall>c \<in> set (override_call L target).
         succeeds L c \<longrightarrow> launchInEditor L target preferred = (Inr True, [c]))
   \<and> (\<forall>p \<in> set (editor_call L Preferred target preferred).
         (\<forall>c \<in> set (override_call L target). \<not> succeeds L c) \<and> succeeds L p \<longrightarrow>
           launchInEditor L target preferred = (Inr True, override_call L target @ [p]))
   \<and> (\<forall>p \<in> set (editor_call L Preferred target preferred).
       \<forall>f \<in> set (editor_call L Fallback target (FALLBACK_EDITOR L)).
         (\<forall>c \<in> set (override_call L target). \<not> succeeds L c) \<and> \<not> succeeds L p \<longrightarrow>
           launchInEditor L target preferred
             = (Inr (succeeds L f), override_call L target @ [p, f])
         \<and> length (filter (\<lambda>c. fst c = Fallback) (snd (launchInEditor L target preferred))) = 1)
   \<and> ((\<forall>c \<in> set (snd (launchInEditor L target preferred)). \<not> succeeds L c) \<longrightarrow>
         fst (launchInEditor L target preferred) = Inr False)
   \<and> length (snd (launchInEditor L target preferred)) \<le> 3"
proof -
  note eq = launchInEditor_chain [OF assms, of target]
  have p2: "\<forall>c \<in> set (override_call L target).
         succeeds L c \<longrightarrow> launchInEditor L target preferred = (Inr True, [c])"
    unfolding eq chain_def
    by (auto simp: override_call_def split: option.splits if_splits)
  have stages: "\<forall>c \<in> set (override_call L target). fst c = Override"
    "\<forall>c \<in> set (editor_call L Preferred target preferred). fst c = Preferred"
    "\<forall>c \<in> set (editor_call L Fallback target (FALLBACK_EDITOR L)). fst c = Fallback"
    by (auto simp: override_call_def editor_call_def split: option.splits if_splits)
  have single: "editor_call L st target e = [x]" if "x \<in> set (editor_call L st target e)" for st e x
    using that by (cases "command_template (checkEditorCLI L) e") (simp_all add: editor_call_def)
  have p3: "\<forall>p \<in> set (editor_call L Preferred target preferred).
         (\<forall>c \<in> set (override_call L target). \<not> succeeds L c) \<and> succeeds L p \<longrightarrow>
           launchInEditor L target preferred = (Inr True, override_call L target @ [p])"
  proof (intro ballI impI)
    fix p assume p: "p \<in> set (editor_call L Preferred target preferred)"
      and h: "(\<forall>c \<in> set (override_call L target). \<not> succeeds L c) \<and> succeeds L p"
    from single [OF p] h
    show "launchInEditor L target preferred = (Inr True, override_call L target @ [p])"
      unfolding eq chain_def by (simp add: run_chain_append_fail)
  qed
  have p4: "\<forall>p \<in> set (editor_call L Preferred target preferred).
       \<forall>f \<in> set (editor_call L Fallback target (FALLBACK_EDITOR L)).
         (\<forall>c \<in> set (override_call L target). \<not> succeeds L c) \<and> \<not> succeeds L p \<longrightarrow>
           launchInEditor L target preferred
             = (Inr (succeeds L f), override_call L target @ [p, f])
         \<and> length (filter (\<lambda>c. fst c = Fallback) (snd (launchInEditor L target preferred))) = 1"
  proof (intro ballI impI)
    fix p f assume p: "p \<in> set (editor_call L Preferred target preferred)"
      and f: "f \<in> set (editor_call L Fallback target (FALLBACK_EDITOR L))"
      and h: "(\<forall>c \<in> set (override_call L target). \<not> succeeds L c) \<and> \<not> succeeds L p"
    have r: "launchInEditor L target preferred
        = (Inr (succeeds L f), override_call L target @ [p, f])"
      using single [OF p] single [OF f] h
      unfolding eq chain_def by (simp add: run_chain_append_fail)
    have "filter (\<lambda>c. fst c = Fallback) (override_call L target) = []"
      using stages(1) by (auto simp: filter_empty_conv)
    moreover have "fst p = Preferred" "fst f = Fallback"
      using stages p f by auto
    ultimately have "length (filter (\<lambda>c. fst c = Fallback)
        (snd (launchInEditor L target preferred))) = 1"
      unfolding r by simp
    with r show "launchInEditor L target preferred
             = (Inr (succeeds L f), override_call L target @ [p, f])
         \<and> length (filter (\<lambda>c. fst c = Fallback) (snd (launchInEditor L target preferred))) = 1"
      by blast
  qed
  have p5: "(\<forall>c \<in> set (snd (launchInEditor L target preferred)). \<not> succeeds L c) \<longrightarrow>
         fst (launchInEditor L target preferred) = Inr False"
    unfolding eq using run_chain_all_fail [of L "chain L target preferred"] by simp
  have p6: "length (snd (launchInEditor L target preferred)) \<le> 3"
    unfolding eq using run_chain_length [of L "chain L target preferred"]
      chain_length [of L target preferred] by simp
  from eq p2 p3 p4 p5 p6 show ?thesis by blast
qed

theorem launchInEditor_priority_chain_witness:
  "''cursor'' \<notin> set object_prototype_keys
   \<and> FALLBACK_EDITOR
       \<lparr>EDITOR_CMD = None, FALLBACK_EDITOR = ''code'',
        checkEditorCLI = (\<lambda>editor. True),
        spawnReturns = (\<lambda>request. request = Spawn ''code'' [''--goto'', ''/w/a.html:3:1''])\<rparr>
       \<notin> set object_prototype_keys
   \<and> launchInEditor
     \<lparr>EDITOR_CMD = None, FALLBACK_EDITOR = ''code'',
      checkEditorCLI = (\<lambda>editor. True),
      spawnReturns = (\<lambda>request. request = Spawn ''code'' [''--goto'', ''/w/a.html:3:1''])\<rparr>
     ''/w/a.html:3:1'' ''cursor''
   = (Inr True, [(Preferred, Spawn ''cursor'' [''--goto'', ''/w/a.html:3:1'']),
                 (Fallback, Spawn ''code'' [''--goto'', ''/w/a.html:3:1''])])
   \<and> length (filter (\<lambda>c. fst c = Fallback)
        (snd (launchInEditor
           \<lparr>EDITOR_CMD = None, FALLBACK_EDITOR = ''code'',
            checkEditorCLI = (\<lambda>editor. True),
            spawnReturns = (\<lambda>request. request = Spawn ''code'' [''--goto'', ''/w/a.html:3:1''])\<rparr>
           ''/w/a.html:3:1'' ''cursor''))) = 1"
proof -
  let ?L = "\<lparr>EDITOR_CMD = None, FALLBACK_EDITOR = ''code'',
      checkEditorCLI = (\<lambda>editor. True),
      spawnReturns = (\<lambda>request. request = Spawn ''code'' [''--goto'', ''/w/a.html:3:1''])\<rparr>"
  let ?p = "(Preferred, Spawn ''cursor'' [''--goto'', ''/w/a.html:3:1''])"
  let ?f = "(Fallback, Spawn ''code'' [''--goto'', ''/w/a.html:3:1''])"
  have k1: "''cursor'' \<notin> set object_prototype_keys"
    by (simp add: object_prototype_keys_def)
  have k2: "FALLBACK_EDITOR ?L \<notin> set object_prototype_keys"
    by (simp add: object_prototype_keys_def)
  have o: "override_call ?L ''/w/a.html:3:1'' = []"
    by (simp add: override_call_def)
  have p: "?p \<in> set (editor_call ?L Preferred ''/w/a.html:3:1'' ''cursor'')"
    by (simp add: editor_call_def command_template_def)
  have f: "?f \<in> set (editor_call ?L Fallback ''/w/a.html:3:1'' (FALLBACK_EDITOR ?L))"
    by (simp add: editor_call_def command_template_def)
  have h: "(\<forall>c \<in> set (override_call ?L ''/w/a.html:3:1''). \<not> succeeds ?L c) \<and> \<not> succeeds ?L ?p"
    by (simp add: o succeeds_def)
  have s: "succeeds ?L ?f"
    by (simp add: succeeds_def)
  from launchInEditor_priority_chain [OF k1 k2, of "''/w/a.html:3:1''"] p f h
  have "launchInEditor ?L ''/w/a.html:3:1'' ''cursor''
          = (Inr (succeeds ?L ?f), override_call ?L ''/w/a.html:3:1'' @ [?p, ?f])
      \<and> length (filter (\<lambda>c. fst c = Fallback)
            (snd (launchInEditor ?L ''/w/a.html:3:1'' ''cursor''))) = 1"
    by blast
  then have "launchInEditor ?L ''/w/a.html:3:1'' ''cursor'' = (Inr True, [?p, ?f])
      \<and> length (filter (\<lambda>c. fst c = Fallback)
            (snd (launchInEditor ?L ''/w/a.html:3:1'' ''cursor''))) = 1"
    unfolding o using s by simp
  with k1 k2 show ?thesis by blast
qed

text \<open>
  An editor name that is the name of a member of \<^verbatim>\<open>Object.prototype\<close> leaves the chain:
  \<^verbatim>\<open>constructor\<close> makes a spawn call with two characters of the target, and
  \<^verbatim>\<open>valueOf\<close> throws before any call, so that the fallback editor is never tried.
\<close>

lemma launchInEditor_inherited_name:
  "snd (launchInEditor
     \<lparr>EDITOR_CMD = None, FALLBACK_EDITOR = ''code'',
      checkEditorCLI = (\<lambda>editor. True), spawnReturns = (\<lambda>request. False)\<rparr>
     ''/w/a.html:3:1'' ''constructor'')
     = [(Preferred, SpawnMalformed (Some ''/'') (Some ''w'')),
        (Fallback, Spawn ''code'' [''--goto'', ''/w/a.html:3:1''])]
   \<and> launchInEditor
     \<lparr>EDITOR_CMD = None, FALLBACK_EDITOR = ''code'',
      checkEditorCLI = (\<lambda>editor. True), spawnReturns = (\<lambda>request. False)\<rparr>
     ''/w/a.html:3:1'' ''valueOf''
     = (Inl TypeError, [])"
  by code_simp

section \<open>Properties of the content search ranker\<close>

subsection \<open>The answer is a line of the file\<close>

lemma split_on_nonempty: "split_on sep s \<noteq> []"
  by (induction s) (auto split: list.splits)

lemma score_lines_length:
  "score_lines host w t lines scores = Inr scores' \<Longrightarrow> length scores' = length scores"
  by (induction host w t lines scores arbitrary: scores' rule: score_lines.induct)
     (auto split: sum.splits)

lemma score_terms_length:
  "score_terms host n i terms lines scores = Inr scores' \<Longrightarrow> length scores' = length scores"
proof (induction terms arbitrary: i scores)
  case Nil
  then show ?case by simp
next
  case (Cons t terms)
  then show ?case
    by (auto simp: Let_def split: sum.splits dest: score_lines_length)
qed

lemma best_line_loop_range:
  "best_line_loop scores i (bl, bs) = (bl', bs') \<Longrightarrow>
     bl' = bl \<or> (i < bl' \<and> bl' \<le> i + length scores)"
proof (induction scores arbitrary: i bl bs)
  case Nil
  then show ?case by simp
next
  case (Cons s scores)
  show ?case
  proof (cases "s > bs")
    case True
    with Cons.prems have "best_line_loop scores (Suc i) (i + 1, s) = (bl', bs')"
      by simp
    from Cons.IH [OF this] show ?thesis by auto
  next
    case False
    with Cons.prems have "best_line_loop scores (Suc i) (bl, bs) = (bl', bs')"
      by simp
    from Cons.IH [OF this] show ?thesis by auto
  qed
qed

lemma search_scores_length:
  assumes "map_of files file = Some content"
    and "search_scores host files file terms = Inr scores"
  shows "length scores = length (split_on CHR 0x0A content)"
  using assms by (auto simp: search_scores_def Let_def dest: score_terms_length)

lemma findBestLineInFile_bounds:
  assumes "map_of files file = Some content"
  shows "1 \<le> findBestLineInFile host files file terms
       \<and> findBestLineInFile host files file terms \<le> length (split_on CHR 0x0A content)"
proof (cases "search_scores host files file terms")
  case (Inl e)
  have "1 \<le> length (split_on CHR 0x0A content)"
    using split_on_nonempty [of "CHR 0x0A" content] by (simp add: Suc_le_eq)
  with Inl show ?thesis by (simp add: findBestLineInFile_def)
next
  case (Inr scores)
  have len: "length scores = length (split_on CHR 0x0A content)"
    using search_scores_length [OF assms Inr] .
  have pos: "1 \<le> length (split_on CHR 0x0A content)"
    using split_on_nonempty [of "CHR 0x0A" content] by (simp add: Suc_le_eq)
  obtain bl bs where run: "best_line_loop scores 0 (1, 0) = (bl, bs)"
    by (cases "best_line_loop scores 0 (1, 0)") auto
  from best_line_loop_range [OF run] len pos
  have "1 \<le> bl \<and> bl \<le> length (split_on CHR 0x0A content)"
    by auto
  with Inr run pos show ?thesis
    by (simp add: findBestLineInFile_def)
qed

text \<open>
  Claim C9.  When the file cannot be read, \<open>findBestLineInFile\<close> returns line 1, whatever
  the clues are.
\<close>

theorem findBestLineInFile_unreadable:
  "map_of files file = None \<Longrightarrow> findBestLineInFile host files file terms = 1"
  by (simp add: findBestLineInFile_def search_scores_def)

theorem findBestLineInFile_unreadable_witness:
  "map_of [(''/w/a.html'', ''<p>save</p>'')] ''/w/missing.html'' = None
   \<and> findBestLineInFile (\<lambda>source subject. None) [(''/w/a.html'', ''<p>save</p>'')]
        ''/w/missing.html'' [''save'', ''<p''] = 1"
proof -
  have h: "map_of [(''/w/a.html'', ''<p>save</p>'')] ''/w/missing.html'' = None"
    by simp
  from findBestLineInFile_unreadable [OF h] h show ?thesis
    by blast
qed

text \<open>
  Claim C10.  For a readable file and any clue list, the empty list and the empty file
  included, the answer is at least 1 and at most the number of lines of the file (the
  pieces of its content between line feeds, of which there is at least one); for an
  unreadable file it is exactly 1.  This holds whatever the regular expression engine
  does with the patterns.
\<close>

theorem findBestLineInFile_in_range:
  "(map_of files file = None \<longrightarrow> findBestLineInFile host files file terms = 1)
   \<and> (\<forall>content. map_of files file = Some content \<longrightarrow>
          1 \<le> findBestLineInFile host files file terms
        \<and> findBestLineInFile host files file terms \<le> length (split_on CHR 0x0A content))"
  using findBestLineInFile_bounds
  by (auto simp: findBestLineInFile_def search_scores_def)

theorem findBestLineInFile_in_range_witness:
  "map_of [(''/w/a.html'', '''')] ''/w/a.html'' = Some ''''
   \<and> length (split_on CHR 0x0A '''') = 1
   \<and> findBestLineInFile (\<lambda>source subject. None) [(''/w/a.html'', '''')] ''/w/a.html'' [] = 1
   \<and> findBestLineInFile (\<lambda>source subject. None) [(''/w/a.html'', '''')] ''/w/a.html'' [''save''] = 1"
proof -
  have h: "map_of [(''/w/a.html'', '''')] ''/w/a.html'' = Some ''''"
    by simp
  have l: "length (split_on CHR 0x0A '''') = 1"
    by simp
  from findBestLineInFile_in_range [of "[(''/w/a.html'', '''')]" "''/w/a.html''"] h
  have "\<And>host terms. 1 \<le> findBestLineInFile host [(''/w/a.html'', '''')] ''/w/a.html'' terms
        \<and> findBestLineInFile host [(''/w/a.html'', '''')] ''/w/a.html'' terms
            \<le> length (split_on CHR 0x0A '''')"
    by blast
  then have "\<And>host terms. findBestLineInFile host [(''/w/a.html'', '''')] ''/w/a.html'' terms = 1"
    unfolding l by (simp add: le_antisym)
  with h l show ?thesis by blast
qed


subsection \<open>Clues without special characters are ranked as specified\<close>

text \<open>
  For a clue without special characters the replacement changes nothing, the pattern is
  the clue's literal text between two word boundaries, and no exception is thrown.  The
  loops then add up the specified scores and return the first line of highest score.
\<close>

lemma escape_replace_no_backslash:
  "backslash \<notin> set s \<Longrightarrow> escape_replace s = s"
  by (induction s rule: escape_replace.induct) auto

lemma parse_pattern_literals:
  assumes "\<forall>c \<in> set s. c \<notin> set ''.*+?^$[]{}|()'' \<and> c \<noteq> backslash"
  shows "parse_pattern (s @ rest) depth acc = parse_pattern rest depth (rev (map Lit s) @ acc)"
  using assms by (induction s arbitrary: acc) auto

lemma parse_word_pattern:
  assumes "\<forall>c \<in> set s. c \<notin> set ''.*+?^$[]{}|()'' \<and> c \<noteq> backslash"
  shows "parse_pattern (word_pattern s) 0 [] = Compiled ([WordBoundary] @ map Lit s @ [WordBoundary])"
proof -
  have nb: "backslash \<notin> set s" using assms by auto
  have bs: "backslash \<noteq> CHR ''(''" "backslash \<noteq> CHR '')''"
    by (simp_all add: backslash_def)
  have "parse_pattern (word_pattern s) 0 []
      = parse_pattern (s @ [backslash, CHR ''b'']) 0 [WordBoundary]"
    using bs by (simp add: word_pattern_def escape_replace_no_backslash [OF nb])
  also have "\<dots> = parse_pattern [backslash, CHR ''b''] 0 (rev (map Lit s) @ [WordBoundary])"
    by (rule parse_pattern_literals [OF assms])
  also have "\<dots> = Compiled ([WordBoundary] @ map Lit s @ [WordBoundary])"
    using bs by simp
  finally show ?thesis .
qed

lemma score_line_plain:
  assumes "plain_clue t"
  shows "score_line host w t line s = Inr (s + clue_score w t line)"
proof -
  from assms have "parse_pattern (word_pattern (toLowerCase t)) 0 []
      = Compiled ([WordBoundary] @ map Lit (toLowerCase t) @ [WordBoundary])"
    unfolding plain_clue_def by (rule parse_word_pattern)
  then have "regexp_test host (word_pattern (toLowerCase t)) (toLowerCase line)
      = Some (whole_word_match t line)"
    by (simp add: regexp_test_def whole_word_match_def)
  then show ?thesis
    by (simp add: score_line_def clue_score_def Let_def)
qed

lemma score_lines_plain:
  assumes "plain_clue t"
  shows "score_lines host w t lines (map g lines)
           = Inr (map (\<lambda>l. g l + clue_score w t l) lines)"
  by (induction lines) (simp_all add: score_line_plain [OF assms])

lemma sum_list_upt_Suc_shift:
  "sum_list (map f [0 ..< Suc m]) = (f 0 :: rat) + sum_list (map (\<lambda>k. f (Suc k)) [0 ..< m])"
proof -
  have "[0 ..< Suc m] = 0 # map Suc [0 ..< m]"
    by (simp add: upt_conv_Cons map_Suc_upt del: upt_Suc)
  then show ?thesis
    by (simp add: comp_def del: upt_Suc)
qed

lemma score_terms_plain:
  assumes "\<forall>t \<in> set terms. plain_clue t"
  shows "score_terms host n i terms lines (map g lines)
           = Inr (map (\<lambda>l. g l + sum_list (map (\<lambda>k. clue_score (clue_weight n (i + k)) (terms ! k) l)
                                               [0 ..< length terms])) lines)"
  using assms
proof (induction terms arbitrary: i g)
  case Nil
  then show ?case by simp
next
  case (Cons t terms)
  then have pt: "plain_clue t" and rest: "\<forall>t \<in> set terms. plain_clue t"
    by simp_all
  let ?w = "clue_weight n i"
  have step: "score_lines host ?w t lines (map g lines)
      = Inr (map (\<lambda>l. g l + clue_score ?w t l) lines)"
    by (rule score_lines_plain [OF pt])
  have "score_terms host n i (t # terms) lines (map g lines)
      = score_terms host n (Suc i) terms lines (map (\<lambda>l. g l + clue_score ?w t l) lines)"
    using step by (simp add: clue_weight_def Let_def)
  also have "\<dots> = Inr (map (\<lambda>l. (g l + clue_score ?w t l)
        + sum_list (map (\<lambda>k. clue_score (clue_weight n (Suc i + k)) (terms ! k) l)
                        [0 ..< length terms])) lines)"
    by (rule Cons.IH [OF rest])
  also have "\<dots> = Inr (map (\<lambda>l. g l
        + sum_list (map (\<lambda>k. clue_score (clue_weight n (i + k)) ((t # terms) ! k) l)
                        [0 ..< length (t # terms)])) lines)"
    by (simp add: sum_list_upt_Suc_shift add.assoc del: upt_Suc)
  finally show ?case .
qed

lemma foldr_max_ge: "(b :: rat) \<le> foldr max xs b"
  by (induction xs) (auto simp: max_def)

lemma foldr_max_max: "foldr max xs (max a b) = max (a :: rat) (foldr max xs b)"
  by (induction xs) (auto simp: max_def)

lemma best_line_loop_first_max:
  "best_line_loop scores i (bl, bs) =
     (if foldr max scores bs > bs
      then (i + Suc (length (takeWhile (\<lambda>s. s \<noteq> foldr max scores bs) scores)),
            foldr max scores bs)
      else (bl, bs))"
proof (induction scores arbitrary: i bl bs)
  case Nil
  then show ?case by simp
next
  case (Cons s scores)
  let ?M = "foldr max (s # scores) bs"
  show ?case
  proof (cases "s > bs")
    case True
    then have "max s bs = s" by simp
    then have M: "?M = foldr max scores s"
      using foldr_max_max [of scores s bs] by simp
    have ge: "s \<le> ?M" by simp
    have gt: "bs < ?M" using True ge by linarith
    show ?thesis
    proof (cases "?M > s")
      case True2: True
      then have "s \<noteq> ?M" by simp
      with True True2 gt Cons.IH [of "Suc i" "i + 1" s] M show ?thesis
        by (simp del: foldr.simps add: foldr.simps [symmetric])
    next
      case False
      with ge have eq: "?M = s" by linarith
      with True gt Cons.IH [of "Suc i" "i + 1" s] M show ?thesis
        by (simp del: foldr.simps add: foldr.simps [symmetric])
    qed
  next
    case False
    have "bs \<le> foldr max scores bs" by (rule foldr_max_ge)
    with False have M: "?M = foldr max scores bs"
      by (simp add: max_def)
    show ?thesis
    proof (cases "foldr max scores bs > bs")
      case True
      with False have "s \<noteq> foldr max scores bs" by linarith
      with True False Cons.IH [of "Suc i" bl bs] show ?thesis
        unfolding M [symmetric] using M by simp
    next
      case F2: False
      with False Cons.IH [of "Suc i" bl bs] show ?thesis
        using M by simp
    qed
  qed
qed

lemma findBestLineInFile_plain_clues:
  assumes "map_of files file = Some content" and "\<forall>t \<in> set terms. plain_clue t"
  shows "findBestLineInFile host files file terms = spec_best_line content terms"
proof -
  let ?lines = "split_on CHR 0x0A content"
  have init: "replicate (length ?lines) (0 :: rat) = map (\<lambda>l. 0) ?lines"
    by (simp add: map_replicate_const)
  have "search_scores host files file terms
      = score_terms host (length terms) 0 terms ?lines (map (\<lambda>l. 0) ?lines)"
    using assms(1) by (simp add: search_scores_def Let_def init)
  also have "\<dots> = Inr (map (line_score terms) ?lines)"
    unfolding score_terms_plain [OF assms(2)] by (simp add: line_score_def)
  finally have scores: "search_scores host files file terms = Inr (map (line_score terms) ?lines)" .
  show ?thesis
    unfolding findBestLineInFile_def scores spec_best_line_def Let_def
    by (simp add: best_line_loop_first_max)
qed

subsection \<open>Clues with characters that are special in a pattern\<close>

text \<open>
  Claim C7 fails on the code.  The replacement that should escape the clue only matches a
  special character followed by a backslash and a closing bracket, so an ordinary clue
  reaches the pattern unchanged.  The clue \<open>thanks :)\<close> makes the constructor throw;
  the exception ends the scoring pass in the \<^verbatim>\<open>catch\<close> and the answer is line 1, although
  the clue occurs on line 2 only, which the ranking of the specification returns.  The
  clue \<open>(click)\<close> is read as a group: the pattern matches where the word \<open>click\<close> stands
  alone, while the clue's literal text is not between word boundaries there.
\<close>

theorem findBestLineInFile_unescaped_clue:
  "escape_replace ''thanks :)'' = ''thanks :)''
   \<and> search_scores host [(''/w/a.html'', ''<h1>title</h1>'' @ [CHR 0x0A] @ ''<p>thanks :)</p>'')] ''/w/a.html'' [''thanks :)'']
       = Inl RegExpSyntaxError
   \<and> findBestLineInFile host [(''/w/a.html'', ''<h1>title</h1>'' @ [CHR 0x0A] @ ''<p>thanks :)</p>'')] ''/w/a.html'' [''thanks :)''] = 1
   \<and> spec_best_line (''<h1>title</h1>'' @ [CHR 0x0A] @ ''<p>thanks :)</p>'') [''thanks :)''] = 2
   \<and> regexp_test host (word_pattern ''(click)'') ''<a (click)>'' = Some True
   \<and> \<not> whole_word_match ''(click)'' ''<a (click)>''"
  by code_simp

text \<open>
  Claim C2 fails on the code for the same reason.  With the clues \<open>save-btn\<close> and
  \<open>Save (draft\<close>, line 2 is the only line with a score (15) and is the answer of the
  ranking as specified; the second clue makes the constructor throw and the code answers
  line 1.
\<close>

theorem findBestLineInFile_ranking_aborted:
  "findBestLineInFile host [(''/w/a.html'', ''<div>'' @ [CHR 0x0A] @ ''<button id=save-btn>Save (draft</button>'')] ''/w/a.html''
       [''save-btn'', ''Save (draft''] = 1
   \<and> map (line_score [''save-btn'', ''Save (draft''])
         (split_on CHR 0x0A (''<div>'' @ [CHR 0x0A] @ ''<button id=save-btn>Save (draft</button>'')) = [0, 15]
   \<and> spec_best_line (''<div>'' @ [CHR 0x0A] @ ''<button id=save-btn>Save (draft</button>'') [''save-btn'', ''Save (draft''] = 2"
  by code_simp

end
